theory Spec2Isabelle
  imports Complex_Main "HOL-Library.Log_Nat" "HOL-Library.Sublist"
begin

section \<open>Python floats\<close>

text \<open>
  Prices in \<^verbatim>\<open>app.py\<close> are Python floats, that is IEEE 754 binary64 numbers. A finite
  double is modelled by the rational number it denotes, and every arithmetic operation
  rounds its exact result to the nearest double, ties to even, as the hardware does.
  Subnormal spacing below \<open>2 powi - 1022\<close> is modelled. Two things are left out: the sign
  of zero (Python's \<^verbatim>\<open>==\<close> does not see it) and overflow to infinity, which needs a
  value above \<open>1.7e308\<close> and so a cart of more than \<open>1e300\<close> items.
\<close>

type_synonym pyfloat = rat

definition round_half_even :: "rat \<Rightarrow> int" where
  "round_half_even x =
     (let f = \<lfloor>x\<rfloor>; d = x - of_int f
      in if d < 1 / 2 then f else if 1 / 2 < d then f + 1 else if even f then f else f + 1)"

definition ilog2 :: "rat \<Rightarrow> int" where
  \<comment> \<open>\<open>\<lfloor>log 2 x\<rfloor>\<close> for a positive rational, from the bit lengths of numerator and denominator\<close>
  "ilog2 x =
     (let (p, q) = quotient_of x; d = bitlen p - bitlen q
      in if (2::rat) powi d \<le> x then d else d - 1)"

definition spacing :: "rat \<Rightarrow> rat" where
  \<comment> \<open>the distance between neighbouring doubles around \<open>x\<close>: 53 bits of precision, and the
      fixed spacing of the subnormal range below \<open>2 powi - 1022\<close>\<close>
  "spacing x = 2 powi (max (ilog2 \<bar>x\<bar>) (- 1022) - 52)"

definition nearest_double :: "rat \<Rightarrow> pyfloat" where
  "nearest_double x =
     (if x = 0 then 0 else of_int (round_half_even (x / spacing x)) * spacing x)"

definition float_lit :: "rat \<Rightarrow> pyfloat" where
  \<comment> \<open>a decimal literal of the source text, such as \<^verbatim>\<open>0.95\<close>\<close>
  "float_lit x = nearest_double x"

definition float_of_int :: "int \<Rightarrow> pyfloat" where
  \<comment> \<open>the conversion \<^verbatim>\<open>float(n)\<close>, also implicit in \<^verbatim>\<open>x * n\<close>\<close>
  "float_of_int n = nearest_double (of_int n)"

definition fadd :: "pyfloat \<Rightarrow> pyfloat \<Rightarrow> pyfloat" where
  "fadd x y = nearest_double (x + y)"

definition fmul :: "pyfloat \<Rightarrow> pyfloat \<Rightarrow> pyfloat" where
  "fmul x y = nearest_double (x * y)"

definition round2 :: "pyfloat \<Rightarrow> pyfloat" where
  \<comment> \<open>\<^verbatim>\<open>round(x, 2)\<close>: CPython rounds the exact value of \<open>x\<close> to two decimals, ties to even,
      and returns the double nearest to that decimal\<close>
  "round2 x = nearest_double (of_int (round_half_even (x * 100)) / 100)"

section \<open>Menu and pricing tables\<close>

datatype PizzaSize = small | medium | large
datatype CrustType = thin | hand_tossed | deep_dish | gluten_free
datatype SauceType = tomato | alfredo | bbq | pesto
datatype CheeseLevel = cheese_light | cheese_normal | cheese_extra
datatype BakeLevel = bake_normal | well_done | light_bake
datatype CutStyle = pie | square
datatype CrustFlavor = flavor_none | garlic_butter | sesame
datatype Drizzle = drizzle_none | ranch | hot_honey
datatype DrinkType = drink_none | coke | diet_coke | sprite | water | root_beer

fun PRICES_size :: "PizzaSize \<Rightarrow> pyfloat" where
  "PRICES_size small = float_lit 10"
| "PRICES_size medium = float_lit 13"
| "PRICES_size large = float_lit 16"

fun PRICES_crust :: "CrustType \<Rightarrow> pyfloat" where
  "PRICES_crust thin = float_lit 0"
| "PRICES_crust hand_tossed = float_lit 0"
| "PRICES_crust deep_dish = float_lit 2"
| "PRICES_crust gluten_free = float_lit 3"

fun PRICES_cheese :: "CheeseLevel \<Rightarrow> pyfloat" where
  "PRICES_cheese cheese_light = float_lit (- (50 / 100))"
| "PRICES_cheese cheese_normal = float_lit 0"
| "PRICES_cheese cheese_extra = float_lit (150 / 100)"

fun PRICES_crust_flavor :: "CrustFlavor \<Rightarrow> pyfloat" where
  "PRICES_crust_flavor flavor_none = float_lit 0"
| "PRICES_crust_flavor garlic_butter = float_lit (75 / 100)"
| "PRICES_crust_flavor sesame = float_lit (50 / 100)"

fun PRICES_drizzle :: "Drizzle \<Rightarrow> pyfloat" where
  "PRICES_drizzle drizzle_none = float_lit 0"
| "PRICES_drizzle ranch = float_lit (75 / 100)"
| "PRICES_drizzle hot_honey = float_lit (95 / 100)"

definition PRICES_topping_each :: pyfloat where
  "PRICES_topping_each = float_lit (125 / 100)"

fun PRICES_drink :: "DrinkType \<Rightarrow> pyfloat" where
  "PRICES_drink drink_none = float_lit 0"
| "PRICES_drink coke = float_lit (225 / 100)"
| "PRICES_drink diet_coke = float_lit (225 / 100)"
| "PRICES_drink sprite = float_lit (225 / 100)"
| "PRICES_drink water = float_lit (150 / 100)"
| "PRICES_drink root_beer = float_lit (225 / 100)"

definition PRICES_tax_rate :: pyfloat where
  "PRICES_tax_rate = float_lit (825 / 10000)"

definition TOPPINGS :: "string list" where
  "TOPPINGS =
     [''pepperoni'', ''sausage'', ''bacon'', ''ham'',
      ''mushrooms'', ''onions'', ''green_peppers'', ''jalapenos'',
      ''black_olives'', ''pineapple'', ''spinach'', ''tomatoes'']"

section \<open>Data models\<close>

text \<open>
  The pydantic models. A field constrained by \<^verbatim>\<open>Literal[...]\<close> has the enumeration as
  its type. The numeric constraints \<^verbatim>\<open>Field(ge=1, le=20)\<close> on quantities are checked
  by the framework before a handler runs; they are the predicate \<open>valid_qty\<close> here, and
  a request index (\<^verbatim>\<open>Field(ge=0)\<close>) is a natural number.
\<close>

record PizzaCustomization =
  size_of :: PizzaSize
  crust :: CrustType
  sauce :: SauceType
  cheese :: CheeseLevel
  bake :: BakeLevel
  cut :: CutStyle
  crust_flavor :: CrustFlavor
  drizzle :: Drizzle
  toppings :: "string list"
  instructions :: string

datatype CartItem =
    CartPizzaItem (name: string) (customization: PizzaCustomization) (qty: int)
  | CartDrinkItem (drink: DrinkType) (qty: int)

definition valid_qty :: "int \<Rightarrow> bool" where
  "valid_qty q \<longleftrightarrow> 1 \<le> q \<and> q \<le> 20"

record Cart =
  cart_id :: string
  items :: "CartItem list"

record CustomerInfo =
  full_name :: string
  email :: "string option"
  phone :: string
  address_line1 :: string
  address_line2 :: string
  city :: string
  state_of :: string
  postal_code :: string

datatype PaymentMethod = method_card | method_cash | method_giftcard

text \<open>
  The authorizer reads the card number and the gift card code character by character. A
  Python string is a sequence of Unicode code points, so the string fields of a payment
  are lists of code points, and a literal of the source text is the list of the codes of
  its characters.
\<close>

type_synonym pystr = "nat list"

definition str_lit :: "string \<Rightarrow> pystr" where
  "str_lit s = map of_char s"

record PaymentInfo =
  method_of :: PaymentMethod
  card_number :: "pystr option"
  exp_month :: "int option"
  exp_year :: "int option"
  cvv :: "pystr option"
  zip_code :: "pystr option"
  code :: "pystr option"

text \<open>
  An \<^verbatim>\<open>HTTPException(status_code, detail)\<close> is a value; the names of the error kinds
  abbreviate the exceptions the handlers raise.
\<close>

datatype error = HTTPException (status_code: nat) (detail: string)

abbreviation CartNotFound :: error where
  "CartNotFound \<equiv> HTTPException 404 ''Cart not found''"

abbreviation OrderNotFound :: error where
  "OrderNotFound \<equiv> HTTPException 404 ''Order not found''"

abbreviation InvalidIndex :: error where
  "InvalidIndex \<equiv> HTTPException 400 ''Invalid index''"

abbreviation InvalidTopping :: "string \<Rightarrow> error" where
  "InvalidTopping t \<equiv> HTTPException 400 (''Invalid topping: '' @ t)"

abbreviation InvalidDrinkSelection :: error where
  "InvalidDrinkSelection \<equiv> HTTPException 400 ''Drink cannot be 'none' as an item''"

abbreviation EmptyCart :: error where
  "EmptyCart \<equiv> HTTPException 400 ''Cart is empty''"

section \<open>Pricing helpers\<close>

fun validate_loop :: "string list \<Rightarrow> string list \<Rightarrow> error + string list" where
  "validate_loop [] clean = Inr clean"
| "validate_loop (t # ts) clean =
     (if t \<notin> set TOPPINGS then Inl (InvalidTopping t) else validate_loop ts (clean @ [t]))"

fun dedup_loop :: "string list \<Rightarrow> string set \<Rightarrow> string list \<Rightarrow> string list" where
  "dedup_loop [] seen dedup = dedup"
| "dedup_loop (t # ts) seen dedup =
     (if t \<notin> seen then dedup_loop ts (insert t seen) (dedup @ [t]) else dedup_loop ts seen dedup)"

definition validate_toppings :: "string list \<Rightarrow> error + string list" where
  "validate_toppings ts =
     (case validate_loop ts [] of
        Inl e \<Rightarrow> Inl e
      | Inr clean \<Rightarrow> Inr (dedup_loop clean {} []))"

definition price_pizza :: "PizzaCustomization \<Rightarrow> error + pyfloat" where
  "price_pizza custom =
     (case validate_toppings (toppings custom) of
        Inl e \<Rightarrow> Inl e
      | Inr ts \<Rightarrow>
          let base = PRICES_size (size_of custom);
              crust_p = PRICES_crust (crust custom);
              cheese_p = PRICES_cheese (cheese custom);
              crust_flavor_p = PRICES_crust_flavor (crust_flavor custom);
              drizzle_p = PRICES_drizzle (drizzle custom);
              topping_cost = fmul PRICES_topping_each (float_of_int (int (length ts)))
          in Inr (round2 (fadd (fadd (fadd (fadd (fadd base crust_p) cheese_p) crust_flavor_p)
                                 drizzle_p) topping_cost)))"

definition price_drink :: "DrinkType \<Rightarrow> pyfloat" where
  "price_drink d = round2 (PRICES_drink d)"

fun subtotal_loop :: "CartItem list \<Rightarrow> pyfloat \<Rightarrow> error + pyfloat" where
  "subtotal_loop [] tot = Inr tot"
| "subtotal_loop (CartPizzaItem n c q # its) tot =
     (case price_pizza c of
        Inl e \<Rightarrow> Inl e
      | Inr unit \<Rightarrow> subtotal_loop its (fadd tot (fmul unit (float_of_int q))))"
| "subtotal_loop (CartDrinkItem d q # its) tot =
     subtotal_loop its (fadd tot (fmul (price_drink d) (float_of_int q)))"

definition cart_subtotal :: "Cart \<Rightarrow> error + pyfloat" where
  "cart_subtotal cart =
     (case subtotal_loop (items cart) 0 of
        Inl e \<Rightarrow> Inl e
      | Inr tot \<Rightarrow> Inr (round2 tot))"

record Totals =
  subtotal :: pyfloat
  tax :: pyfloat
  total_amt :: pyfloat

definition compute_totals :: "Cart \<Rightarrow> error + Totals" where
  "compute_totals cart =
     (case cart_subtotal cart of
        Inl e \<Rightarrow> Inl e
      | Inr st \<Rightarrow>
          let tx = round2 (fmul st PRICES_tax_rate);
              tot = round2 (fadd st tx)
          in Inr \<lparr>subtotal = st, tax = tx, total_amt = tot\<rparr>)"

record OrderItem =
  item :: CartItem
  unit_price :: pyfloat
  line_total :: pyfloat

text \<open>
  \<^verbatim>\<open>enrich_items_with_prices\<close> and \<^verbatim>\<open>enrich_order_items\<close>. The second works on the
  dictionaries of \<^verbatim>\<open>cart.model_dump()["items"]\<close> and turns each customization back
  into a model with \<^verbatim>\<open>model_validate\<close>; a dumped item has the field values of the item,
  and validating them again returns them, so the loop runs over the items themselves.
  \<^verbatim>\<open>qty or 1\<close> replaces a quantity of zero by one.
\<close>

fun unit_price_of :: "CartItem \<Rightarrow> error + pyfloat" where
  "unit_price_of (CartPizzaItem n c q) = price_pizza c"
| "unit_price_of (CartDrinkItem d q) = Inr (price_drink d)"

definition qty_or_1 :: "CartItem \<Rightarrow> int" where
  "qty_or_1 it = (if qty it = 0 then 1 else qty it)"

fun enrich_loop :: "CartItem list \<Rightarrow> OrderItem list \<Rightarrow> error + OrderItem list" where
  "enrich_loop [] enriched = Inr enriched"
| "enrich_loop (it # its) enriched =
     (case unit_price_of it of
        Inl e \<Rightarrow> Inl e
      | Inr unit \<Rightarrow>
          enrich_loop its
            (enriched @
             [\<lparr>item = it, unit_price = round2 unit,
               line_total = round2 (fmul unit (float_of_int (qty_or_1 it)))\<rparr>]))"

definition enrich_items_with_prices :: "Cart \<Rightarrow> error + string \<times> OrderItem list" where
  "enrich_items_with_prices cart =
     (case enrich_loop (items cart) [] of
        Inl e \<Rightarrow> Inl e
      | Inr enriched \<Rightarrow> Inr (cart_id cart, enriched))"

definition enrich_order_items :: "CartItem list \<Rightarrow> error + OrderItem list" where
  "enrich_order_items ds = enrich_loop ds []"

section \<open>Mock payment processor\<close>

text \<open>
  \<^verbatim>\<open>str.strip\<close>, \<^verbatim>\<open>str.isdigit\<close> and \<^verbatim>\<open>str.upper\<close> read the Unicode character
  database of the Python runtime, which changes from one version to the next. The three
  tables are inputs of the model: which code points are white space, which are digits,
  and the upper-case form of a string (a function of the whole string, since one
  character can become several).
\<close>

record UnicodeData =
  isspace :: "nat \<Rightarrow> bool"
  isdigit :: "nat \<Rightarrow> bool"
  upper :: "pystr \<Rightarrow> pystr"

definition strip :: "UnicodeData \<Rightarrow> pystr \<Rightarrow> pystr" where
  "strip ud s = rev (dropWhile (isspace ud) (rev (dropWhile (isspace ud) s)))"

definition endswith :: "'a list \<Rightarrow> 'a list \<Rightarrow> bool" where
  "endswith s suf \<longleftrightarrow> length suf \<le> length s \<and> drop (length s - length suf) s = suf"

fun join :: "string \<Rightarrow> string list \<Rightarrow> string" where
  "join sep [] = []"
| "join sep [x] = x"
| "join sep (x # y # ys) = x @ sep @ join sep (y # ys)"

definition or_empty :: "'a list option \<Rightarrow> 'a list" where
  \<comment> \<open>\<^verbatim>\<open>value or ""\<close>\<close>
  "or_empty v = (case v of None \<Rightarrow> [] | Some s \<Rightarrow> s)"

definition normalized_card_digits :: "UnicodeData \<Rightarrow> PaymentInfo \<Rightarrow> pystr" where
  "normalized_card_digits ud payment = filter (isdigit ud) (or_empty (card_number payment))"

definition missing_card_fields :: "PaymentInfo \<Rightarrow> string list" where
  \<comment> \<open>the names \<open>k\<close> with \<^verbatim>\<open>getattr(self, k) in (None, "")\<close>, in the order of the source\<close>
  "missing_card_fields payment =
     (if card_number payment = None \<or> card_number payment = Some [] then [''card_number''] else []) @
     (if exp_month payment = None then [''exp_month''] else []) @
     (if exp_year payment = None then [''exp_year''] else []) @
     (if cvv payment = None \<or> cvv payment = Some [] then [''cvv''] else []) @
     (if zip_code payment = None \<or> zip_code payment = Some [] then [''zip_code''] else [])"

abbreviation MissingPaymentFields :: "string list \<Rightarrow> error" where
  "MissingPaymentFields missing \<equiv> HTTPException 400 (''Missing card fields: '' @ join '', '' missing)"

abbreviation MissingGiftCardCode :: error where
  "MissingGiftCardCode \<equiv> HTTPException 400 ''Missing gift card code''"

definition validate_required :: "PaymentInfo \<Rightarrow> error + unit" where
  "validate_required payment =
     (if method_of payment = method_card \<and> missing_card_fields payment \<noteq> []
      then Inl (MissingPaymentFields (missing_card_fields payment))
      else if method_of payment = method_giftcard \<and> or_empty (code payment) = []
      then Inl MissingGiftCardCode
      else Inr ())"

datatype PaymentResult =
    Approved (auth_id: string) (amount: pyfloat) (card_last4: "pystr option")
  | Declined (reason: string)

fun approved :: "PaymentResult \<Rightarrow> bool" where
  \<comment> \<open>\<^verbatim>\<open>payment_result["status"] == "approved"\<close>\<close>
  "approved (Approved a m l) = True"
| "approved (Declined r) = False"

text \<open>
  \<^verbatim>\<open>uuid4().hex\<close> and \<^verbatim>\<open>datetime.utcnow()\<close> are inputs, as the character tables are:
  the hexadecimal string of the identifier drawn, and the year and month of the clock. For a card the expiry fields are
  present once \<open>validate_required\<close> has passed; the branch for a missing one stands for
  the \<^verbatim>\<open>TypeError\<close> of comparing \<^verbatim>\<open>None\<close> with a number, which the framework answers
  with status 500.
\<close>

definition mock_authorize ::
    "UnicodeData \<Rightarrow> PaymentInfo \<Rightarrow> pyfloat \<Rightarrow> string \<Rightarrow> int \<Rightarrow> int \<Rightarrow>
       error + PaymentResult" where
  "mock_authorize ud payment amt uuid_hex now_year now_month =
     (case validate_required payment of
        Inl e \<Rightarrow> Inl e
      | Inr _ \<Rightarrow>
          if method_of payment = method_cash then Inr (Approved ''cash'' amt None)
          else if method_of payment = method_giftcard then
            (if upper ud (strip ud (or_empty (code payment))) = str_lit ''DECLINE''
             then Inr (Declined ''Mock gift card declined'')
             else Inr (Approved (''gift_'' @ take 10 uuid_hex) amt None))
          else
            (case (exp_year payment, exp_month payment) of
               (Some ey, Some em) \<Rightarrow>
                 let exp_ok = (now_year < ey \<or> (ey = now_year \<and> now_month \<le> em))
                 in if \<not> exp_ok then Inr (Declined ''Card expired'')
                    else
                      let digits = normalized_card_digits ud payment
                      in if endswith digits (str_lit ''0000'')
                         then Inr (Declined ''Mock decline rule (ends with 0000)'')
                         else
                           let aid = ''auth_'' @ take 12 uuid_hex;
                               last4 = (if 4 \<le> length digits
                                        then drop (length digits - 4) digits
                                        else str_lit ''????'')
                           in Inr (Approved aid amt (Some last4))
             | _ \<Rightarrow> Inl (HTTPException 500 ''Internal Server Error'')))"

section \<open>In-memory store and API endpoints\<close>

record Order =
  order_id :: string
  created_at_utc :: string
  customer :: CustomerInfo
  order_items :: "OrderItem list"
  totals :: Totals
  payment :: PaymentResult
  status :: string

record Store =
  CARTS :: "string \<rightharpoonup> Cart"
  ORDERS :: "string \<rightharpoonup> Order"

definition empty_store :: Store where
  "empty_store = \<lparr>CARTS = Map.empty, ORDERS = Map.empty\<rparr>"

text \<open>
  A handler reads and mutates the two dictionaries and then returns or raises. It is a
  function from the store to the store after the call and the answer. A cart is mutated
  in place through the reference held by \<open>CARTS\<close>, so the mutation is an update of the
  dictionary entry; the request objects are fresh for each call and shared with nothing.
  Where a handler raises after it has mutated the cart, the mutation stays.
\<close>

definition with_totals :: "Cart \<Rightarrow> error + Cart \<times> Totals" where
  \<comment> \<open>\<^verbatim>\<open>{"cart": cart, "totals": compute_totals(cart)}\<close>\<close>
  "with_totals cart =
     (case compute_totals cart of Inl e \<Rightarrow> Inl e | Inr t \<Rightarrow> Inr (cart, t))"

definition put_cart :: "Store \<Rightarrow> string \<Rightarrow> Cart \<Rightarrow> Store" where
  "put_cart s cid cart = s\<lparr>CARTS := (CARTS s)(cid \<mapsto> cart)\<rparr>"

definition create_cart :: "Store \<Rightarrow> string \<Rightarrow> Store \<times> Cart" where
  "create_cart s uuid_hex =
     (let cid = ''cart_'' @ take 12 uuid_hex;
          cart = \<lparr>cart_id = cid, items = []\<rparr>
      in (put_cart s cid cart, cart))"

definition get_cart :: "Store \<Rightarrow> string \<Rightarrow> error + (string \<times> OrderItem list) \<times> Totals" where
  "get_cart s cid =
     (case CARTS s cid of
        None \<Rightarrow> Inl CartNotFound
      | Some cart \<Rightarrow>
          (case compute_totals cart of
             Inl e \<Rightarrow> Inl e
           | Inr t \<Rightarrow>
               (case enrich_items_with_prices cart of
                  Inl e \<Rightarrow> Inl e
                | Inr cart_dict \<Rightarrow> Inr (cart_dict, t))))"

abbreviation Unprocessable :: error where
  \<comment> \<open>the framework's answer to a request body of the wrong shape; the handler does not run\<close>
  "Unprocessable \<equiv> HTTPException 422 ''Unprocessable Entity''"

fun add_pizza :: "Store \<Rightarrow> string \<Rightarrow> CartItem \<Rightarrow> Store \<times> (error + Cart \<times> Totals)" where
  "add_pizza s cid (CartPizzaItem n c q) =
     (case CARTS s cid of
        None \<Rightarrow> (s, Inl CartNotFound)
      | Some cart \<Rightarrow>
          (case validate_toppings (toppings c) of
             Inl e \<Rightarrow> (s, Inl e)
           | Inr ts \<Rightarrow>
               let cart' = cart\<lparr>items := items cart @ [CartPizzaItem n (c\<lparr>toppings := ts\<rparr>) q]\<rparr>
               in (put_cart s cid cart', with_totals cart')))"
| "add_pizza s cid (CartDrinkItem d q) = (s, Inl Unprocessable)"

fun add_drink :: "Store \<Rightarrow> string \<Rightarrow> CartItem \<Rightarrow> Store \<times> (error + Cart \<times> Totals)" where
  "add_drink s cid (CartDrinkItem d q) =
     (case CARTS s cid of
        None \<Rightarrow> (s, Inl CartNotFound)
      | Some cart \<Rightarrow>
          if d = drink_none then (s, Inl InvalidDrinkSelection)
          else
            let cart' = cart\<lparr>items := items cart @ [CartDrinkItem d q]\<rparr>
            in (put_cart s cid cart', with_totals cart'))"
| "add_drink s cid (CartPizzaItem n c q) = (s, Inl Unprocessable)"

fun set_qty :: "CartItem \<Rightarrow> int \<Rightarrow> CartItem" where
  "set_qty (CartPizzaItem n c q) q' = CartPizzaItem n c q'"
| "set_qty (CartDrinkItem d q) q' = CartDrinkItem d q'"

definition update_qty :: "Store \<Rightarrow> string \<Rightarrow> nat \<Rightarrow> int \<Rightarrow> Store \<times> (error + Cart \<times> Totals)" where
  "update_qty s cid index q =
     (case CARTS s cid of
        None \<Rightarrow> (s, Inl CartNotFound)
      | Some cart \<Rightarrow>
          if length (items cart) \<le> index then (s, Inl InvalidIndex)
          else
            let it = set_qty (items cart ! index) q;
                cart' = cart\<lparr>items := (items cart)[index := it]\<rparr>
            in (put_cart s cid cart', with_totals cart'))"

definition pop :: "'a list \<Rightarrow> nat \<Rightarrow> 'a list" where
  \<comment> \<open>the list after \<^verbatim>\<open>list.pop(i)\<close>, for \<open>i\<close> in range\<close>
  "pop xs i = take i xs @ drop (Suc i) xs"

definition remove_item :: "Store \<Rightarrow> string \<Rightarrow> nat \<Rightarrow> Store \<times> (error + Cart \<times> Totals)" where
  "remove_item s cid index =
     (case CARTS s cid of
        None \<Rightarrow> (s, Inl CartNotFound)
      | Some cart \<Rightarrow>
          if length (items cart) \<le> index then (s, Inl InvalidIndex)
          else
            let cart' = cart\<lparr>items := pop (items cart) index\<rparr>
            in (put_cart s cid cart', with_totals cart'))"

definition clear_cart :: "Store \<Rightarrow> string \<Rightarrow> Store \<times> (error + Cart \<times> Totals)" where
  "clear_cart s cid =
     (case CARTS s cid of
        None \<Rightarrow> (s, Inl CartNotFound)
      | Some cart \<Rightarrow>
          let cart' = cart\<lparr>items := []\<rparr>
          in (put_cart s cid cart', with_totals cart'))"

record Env =
  unicode_data :: UnicodeData
  auth_uuid_hex :: string
  now_year :: int
  now_month :: int
  order_uuid_hex :: string
  now_isoformat :: string

datatype PlaceOrderResponse =
    PaymentDeclined (declined_payment: PaymentResult) (echo_cart: Cart) (echo_totals: Totals)
      (echo_customer: CustomerInfo)
  | OrderPlaced (order_summary: Order)

fun ok :: "PlaceOrderResponse \<Rightarrow> bool" where
  "ok (PaymentDeclined p c t cu) = False"
| "ok (OrderPlaced summary) = True"

definition place_order ::
    "Store \<Rightarrow> string \<Rightarrow> CustomerInfo \<Rightarrow> PaymentInfo \<Rightarrow> Env \<Rightarrow> Store \<times> (error + PlaceOrderResponse)" where
  "place_order s cid cust pay env =
     (case CARTS s cid of
        None \<Rightarrow> (s, Inl CartNotFound)
      | Some cart \<Rightarrow>
          if items cart = [] then (s, Inl EmptyCart)
          else
            (case compute_totals cart of
               Inl e \<Rightarrow> (s, Inl e)
             | Inr tots \<Rightarrow>
                 (case mock_authorize (unicode_data env) pay (total_amt tots) (auth_uuid_hex env)
                         (now_year env) (now_month env) of
                    Inl e \<Rightarrow> (s, Inl e)
                  | Inr payment_result \<Rightarrow>
                      if \<not> approved payment_result
                      then (s, Inr (PaymentDeclined payment_result cart tots cust))
                      else
                        let oid = ''order_'' @ take 12 (order_uuid_hex env)
                        in (case enrich_order_items (items cart) of
                              Inl e \<Rightarrow> (s, Inl e)
                            | Inr enriched \<Rightarrow>
                                let summary =
                                      \<lparr>order_id = oid,
                                       created_at_utc = now_isoformat env @ ''Z'',
                                       customer = cust,
                                       order_items = enriched,
                                       totals = tots,
                                       payment = payment_result,
                                       status = ''placed''\<rparr>;
                                    s' = s\<lparr>ORDERS := (ORDERS s)(oid \<mapsto> summary)\<rparr>
                                in (put_cart s' cid (cart\<lparr>items := []\<rparr>),
                                    Inr (OrderPlaced summary))))))"

definition get_order :: "Store \<Rightarrow> string \<Rightarrow> error + Order" where
  "get_order s oid = (case ORDERS s oid of None \<Rightarrow> Inl OrderNotFound | Some order \<Rightarrow> Inr order)"

text \<open>The calls that change the store, and the stores a sequence of calls can produce.\<close>

datatype Request =
    CreateCart string
  | AddPizza string CartItem
  | AddDrink string CartItem
  | UpdateQty string nat int
  | RemoveItem string nat
  | ClearCart string
  | PlaceOrder string CustomerInfo PaymentInfo Env

fun handle :: "Store \<Rightarrow> Request \<Rightarrow> Store" where
  "handle s (CreateCart uuid_hex) = fst (create_cart s uuid_hex)"
| "handle s (AddPizza cid it) = fst (add_pizza s cid it)"
| "handle s (AddDrink cid it) = fst (add_drink s cid it)"
| "handle s (UpdateQty cid index q) = fst (update_qty s cid index q)"
| "handle s (RemoveItem cid index) = fst (remove_item s cid index)"
| "handle s (ClearCart cid) = fst (clear_cart s cid)"
| "handle s (PlaceOrder cid cust pay env) = fst (place_order s cid cust pay env)"

inductive reachable :: "Store \<Rightarrow> bool" where
  initial: "reachable empty_store"
| step: "reachable s \<Longrightarrow> reachable (handle s r)"

fun toppings_ok :: "CartItem \<Rightarrow> bool" where
  "toppings_ok (CartPizzaItem n c q) \<longleftrightarrow> distinct (toppings c) \<and> set (toppings c) \<subseteq> set TOPPINGS"
| "toppings_ok (CartDrinkItem d q) \<longleftrightarrow> True"

definition carts_ok :: "Store \<Rightarrow> bool" where
  "carts_ok s \<longleftrightarrow> (\<forall>cart \<in> ran (CARTS s). \<forall>it \<in> set (items cart). toppings_ok it)"

section \<open>Specification-side definitions\<close>

text \<open>
  The specification's wording of the validator's result, for comparison with the loops:
  the entries of the input whose name does not occur at an earlier position, in the order
  of the input.
\<close>

definition first_occurrences :: "'a list \<Rightarrow> 'a list" where
  "first_occurrences ts =
     map (\<lambda>i. ts ! i) (filter (\<lambda>i. ts ! i \<notin> set (take i ts)) [0..<length ts])"


definition ascii_upper :: "nat \<Rightarrow> nat" where
  "ascii_upper c = (if 97 \<le> c \<and> c \<le> 122 then c - 32 else c)"





text \<open>
  The prices in exact decimal arithmetic, in cents: the tables of \<^verbatim>\<open>PRICES\<close> as the
  source text writes them, the sum the specification documents for a pizza, and the
  subtotal of a list of items.
\<close>

fun size_cents :: "PizzaSize \<Rightarrow> int" where
  "size_cents small = 1000"
| "size_cents medium = 1300"
| "size_cents large = 1600"

fun crust_cents :: "CrustType \<Rightarrow> int" where
  "crust_cents thin = 0"
| "crust_cents hand_tossed = 0"
| "crust_cents deep_dish = 200"
| "crust_cents gluten_free = 300"

fun cheese_cents :: "CheeseLevel \<Rightarrow> int" where
  "cheese_cents cheese_light = - 50"
| "cheese_cents cheese_normal = 0"
| "cheese_cents cheese_extra = 150"

fun crust_flavor_cents :: "CrustFlavor \<Rightarrow> int" where
  "crust_flavor_cents flavor_none = 0"
| "crust_flavor_cents garlic_butter = 75"
| "crust_flavor_cents sesame = 50"

fun drizzle_cents :: "Drizzle \<Rightarrow> int" where
  "drizzle_cents drizzle_none = 0"
| "drizzle_cents ranch = 75"
| "drizzle_cents hot_honey = 95"

fun drink_cents :: "DrinkType \<Rightarrow> int" where
  "drink_cents drink_none = 0"
| "drink_cents coke = 225"
| "drink_cents diet_coke = 225"
| "drink_cents sprite = 225"
| "drink_cents water = 150"
| "drink_cents root_beer = 225"

definition pizza_cents :: "PizzaCustomization \<Rightarrow> int" where
  "pizza_cents custom =
     size_cents (size_of custom) + crust_cents (crust custom) + cheese_cents (cheese custom) +
     crust_flavor_cents (crust_flavor custom) + drizzle_cents (drizzle custom) +
     125 * int (card (set (toppings custom)))"

fun item_cents :: "CartItem \<Rightarrow> int" where
  "item_cents (CartPizzaItem n c q) = pizza_cents c"
| "item_cents (CartDrinkItem d q) = drink_cents d"

definition cart_cents :: "CartItem list \<Rightarrow> int" where
  "cart_cents its = sum_list (map (\<lambda>it. item_cents it * qty it) its)"

fun priceable :: "CartItem \<Rightarrow> bool" where
  \<comment> \<open>an item as a handler stores it: quantity in range, toppings from the catalog\<close>
  "priceable (CartPizzaItem n c q) \<longleftrightarrow> valid_qty q \<and> set (toppings c) \<subseteq> set TOPPINGS"
| "priceable (CartDrinkItem d q) \<longleftrightarrow> valid_qty q"

text \<open>
  The subtotal in the specification's words: the line total of each item is rounded to
  two decimals before it is added, and the sum is rounded again.
\<close>

definition spec_line_total :: "CartItem \<Rightarrow> error + pyfloat" where
  "spec_line_total it =
     (case unit_price_of it of
        Inl e \<Rightarrow> Inl e
      | Inr unit \<Rightarrow> Inr (round2 (fmul unit (float_of_int (qty it)))))"

definition code_line_total :: "CartItem \<Rightarrow> error + pyfloat" where
  \<comment> \<open>what \<open>subtotal_loop\<close> adds for an item\<close>
  "code_line_total it =
     (case unit_price_of it of
        Inl e \<Rightarrow> Inl e
      | Inr unit \<Rightarrow> Inr (fmul unit (float_of_int (qty it))))"

fun sum_lines :: "(CartItem \<Rightarrow> error + pyfloat) \<Rightarrow> CartItem list \<Rightarrow> pyfloat \<Rightarrow> error + pyfloat" where
  "sum_lines line [] tot = Inr tot"
| "sum_lines line (it # its) tot =
     (case line it of
        Inl e \<Rightarrow> Inl e
      | Inr l \<Rightarrow> sum_lines line its (fadd tot l))"

definition spec_cart_subtotal :: "Cart \<Rightarrow> error + pyfloat" where
  "spec_cart_subtotal cart =
     (case sum_lines spec_line_total (items cart) 0 of
        Inl e \<Rightarrow> Inl e
      | Inr tot \<Rightarrow> Inr (round2 tot))"

text \<open>
  Constants of the error analysis: the relative error of one rounding, the error one
  step of the subtotal loop can add for a total below \<open>2 ^ 27\<close>, and what the analysis
  needs of the amount a loop adds for an item.
\<close>

definition unit_roundoff :: rat where
  "unit_roundoff = 1 / 2 ^ 53"

definition step_error :: rat where
  "step_error = 134220032 * unit_roundoff"

definition line_ok :: "(CartItem \<Rightarrow> error + pyfloat) \<Rightarrow> CartItem \<Rightarrow> bool" where
  "line_ok line it \<longleftrightarrow>
     (\<exists>l. line it = Inr l \<and>
        \<bar>l - of_int (item_cents it * qty it) / 100\<bar> \<le> 2304 * unit_roundoff \<and>
        0 \<le> item_cents it * qty it \<and> item_cents it * qty it \<le> 74400)"

section \<open>Example values\<close>

definition demo_pizza :: PizzaCustomization where
  "demo_pizza =
     \<lparr>size_of = small, crust = thin, sauce = tomato, cheese = cheese_normal, bake = bake_normal,
      cut = pie, crust_flavor = flavor_none, drizzle = drizzle_none, toppings = [],
      instructions = []\<rparr>"

definition demo_cart :: Cart where
  "demo_cart =
     \<lparr>cart_id = ''cart_0123456789ab'',
      items = [CartPizzaItem ''Custom Pizza'' demo_pizza 2, CartDrinkItem coke 1,
               CartDrinkItem water 3]\<rparr>"

definition demo_store :: Store where
  "demo_store = put_cart empty_store ''cart_0123456789ab'' demo_cart"

definition demo_totals :: Totals where
  "demo_totals =
     \<lparr>subtotal = float_lit (2675 / 100), tax = float_lit (221 / 100),
      total_amt = float_lit (2896 / 100)\<rparr>"

definition demo_customer :: CustomerInfo where
  "demo_customer =
     \<lparr>full_name = ''Ada Lovelace'', email = None, phone = ''5550100'',
      address_line1 = ''12 Main Street'', address_line2 = [], city = ''Springfield'',
      state_of = ''IL'', postal_code = ''62701''\<rparr>"

definition demo_unicode :: UnicodeData where
  \<comment> \<open>an excerpt of the tables of CPython 3: all its white space, the ASCII digits and the
      superscript digits of Latin-1, the upper case of the ASCII letters and of dotless i\<close>
  "demo_unicode =
     \<lparr>isspace = (\<lambda>c. c \<in> set [9, 10, 11, 12, 13, 28, 29, 30, 31, 32, 133, 160, 5760, 8192,
                  8193, 8194, 8195, 8196, 8197, 8198, 8199, 8200, 8201, 8202, 8232, 8233,
                  8239, 8287, 12288]),
      isdigit = (\<lambda>c. (48 \<le> c \<and> c \<le> 57) \<or> c \<in> set [178, 179, 185]),
      upper = map (\<lambda>c. if c = 305 then 73 else ascii_upper c)\<rparr>"

definition demo_env :: Env where
  "demo_env =
     \<lparr>unicode_data = demo_unicode, auth_uuid_hex = ''00112233445566778899aabbccddeeff'', now_year = 2026, now_month = 11,
      order_uuid_hex = ''fedcba9876543210fedcba9876543210'',
      now_isoformat = ''2026-11-03T12:00:00''\<rparr>"

definition pay_cash :: PaymentInfo where
  "pay_cash =
     \<lparr>method_of = method_cash, card_number = None, exp_month = None, exp_year = None,
      cvv = None, zip_code = None, code = None\<rparr>"

definition pay_giftcard :: "pystr \<Rightarrow> PaymentInfo" where
  "pay_giftcard c = pay_cash\<lparr>method_of := method_giftcard, code := Some c\<rparr>"


definition hot_honey_pizza :: PizzaCustomization where
  "hot_honey_pizza =
     \<lparr>size_of = medium, crust = deep_dish, sauce = tomato, cheese = cheese_extra,
      bake = bake_normal, cut = pie, crust_flavor = sesame, drizzle = hot_honey,
      toppings = TOPPINGS, instructions = []\<rparr>"

definition water_lines :: nat where
  "water_lines = 75059993789509"

definition long_cart :: Cart where
  \<comment> \<open>75059993789509 lines of twenty waters, then one line of fifteen pizzas at 32.95\<close>
  "long_cart =
     \<lparr>cart_id = ''cart_0123456789ab'',
      items = replicate water_lines (CartDrinkItem water 20) @
              [CartPizzaItem ''Custom Pizza'' hot_honey_pizza 15]\<rparr>"




section \<open>The topping validator\<close>

lemma validate_loop_ok:
  "set ts \<subseteq> set TOPPINGS \<Longrightarrow> validate_loop ts clean = Inr (clean @ ts)"
  by (induction ts arbitrary: clean) auto

lemma validate_loop_first_unknown:
  "set pre \<subseteq> set TOPPINGS \<Longrightarrow> t \<notin> set TOPPINGS \<Longrightarrow>
   validate_loop (pre @ t # post) clean = Inl (InvalidTopping t)"
  by (induction pre arbitrary: clean) auto

lemma dedup_loop_eq:
  "dedup_loop ts seen dedup = dedup @ rev (remdups (rev (filter (\<lambda>t. t \<notin> seen) ts)))"
proof (induction ts arbitrary: seen dedup)
  case Nil
  then show ?case by simp
next
  case (Cons t ts)
  have keep: "filter (\<lambda>x. x \<notin> insert t seen) ts = filter (\<lambda>x. x \<noteq> t) (filter (\<lambda>x. x \<notin> seen) ts)"
    by (induction ts) auto
  have first: "rev (remdups (rev (t # xs))) = t # rev (remdups (rev (filter (\<lambda>x. x \<noteq> t) xs)))"
    for xs :: "string list"
  proof -
    have "remdups (ys @ [t]) = filter (\<lambda>x. x \<noteq> t) (remdups ys) @ [t]" for ys :: "string list"
      by (induction ys) auto
    then show ?thesis
      by (simp add: remdups_filter rev_filter)
  qed
  show ?case
  proof (cases "t \<in> seen")
    case True
    then show ?thesis using Cons.IH [of seen dedup] by simp
  next
    case False
    have "dedup_loop (t # ts) seen dedup = dedup_loop ts (insert t seen) (dedup @ [t])"
      using False by simp
    also have "\<dots> = (dedup @ [t]) @ rev (remdups (rev (filter (\<lambda>x. x \<notin> insert t seen) ts)))"
      by (rule Cons.IH)
    also have "\<dots> = dedup @ t # rev (remdups (rev (filter (\<lambda>x. x \<noteq> t) (filter (\<lambda>x. x \<notin> seen) ts))))"
      by (simp only: keep append_assoc append_Cons append_Nil)
    also have "\<dots> = dedup @ rev (remdups (rev (t # filter (\<lambda>x. x \<notin> seen) ts)))"
      by (simp only: first)
    also have "\<dots> = dedup @ rev (remdups (rev (filter (\<lambda>x. x \<notin> seen) (t # ts))))"
      using False by simp
    finally show ?thesis .
  qed
qed

lemma validate_toppings_ok:
  "set ts \<subseteq> set TOPPINGS \<Longrightarrow> validate_toppings ts = Inr (rev (remdups (rev ts)))"
  by (simp add: validate_toppings_def validate_loop_ok dedup_loop_eq)

lemma validate_toppings_first_unknown:
  "set pre \<subseteq> set TOPPINGS \<Longrightarrow> t \<notin> set TOPPINGS \<Longrightarrow>
   validate_toppings (pre @ t # post) = Inl (InvalidTopping t)"
  by (simp add: validate_toppings_def validate_loop_first_unknown)

lemma unknown_split:
  "\<not> set ts \<subseteq> set TOPPINGS \<Longrightarrow>
   \<exists>pre t post. ts = pre @ t # post \<and> set pre \<subseteq> set TOPPINGS \<and> t \<notin> set TOPPINGS"
proof -
  assume "\<not> set ts \<subseteq> set TOPPINGS"
  then have "\<exists>x \<in> set ts. x \<notin> set TOPPINGS" by auto
  then obtain pre t post where "ts = pre @ t # post" "t \<notin> set TOPPINGS"
    "\<forall>y \<in> set pre. \<not> y \<notin> set TOPPINGS"
    by (auto simp: split_list_first_prop_iff)
  then show ?thesis by auto
qed

lemma validate_toppings_Inr_iff:
  "(\<exists>r. validate_toppings ts = Inr r) \<longleftrightarrow> set ts \<subseteq> set TOPPINGS"
proof
  assume "\<exists>r. validate_toppings ts = Inr r"
  then show "set ts \<subseteq> set TOPPINGS"
    using unknown_split [of ts] validate_toppings_first_unknown by fastforce
next
  assume "set ts \<subseteq> set TOPPINGS"
  then show "\<exists>r. validate_toppings ts = Inr r"
    by (simp add: validate_toppings_ok)
qed

lemma validate_toppings_result:
  assumes "validate_toppings ts = Inr r"
  shows "r = rev (remdups (rev ts))" and "set ts \<subseteq> set TOPPINGS"
proof -
  show sub: "set ts \<subseteq> set TOPPINGS"
    using assms validate_toppings_Inr_iff by blast
  show "r = rev (remdups (rev ts))"
    using assms validate_toppings_ok [OF sub] by simp
qed

lemma first_occurrence_distinct: "distinct (rev (remdups (rev ts)))"
  by simp

lemma first_occurrence_id: "distinct ts \<Longrightarrow> rev (remdups (rev ts)) = ts"
  by (simp add: distinct_remdups_id)

lemma first_occurrences_snoc:
  "first_occurrences (ts @ [x]) = first_occurrences ts @ (if x \<in> set ts then [] else [x])"
proof -
  have "filter (\<lambda>i. (ts @ [x]) ! i \<notin> set (take i (ts @ [x]))) [0..<length ts] =
        filter (\<lambda>i. ts ! i \<notin> set (take i ts)) [0..<length ts]"
    by (rule filter_cong) (auto simp: nth_append)
  moreover have "map (\<lambda>i. (ts @ [x]) ! i) (filter P [0..<length ts]) =
        map (\<lambda>i. ts ! i) (filter P [0..<length ts])" for P
    by (rule map_cong) (auto simp: nth_append)
  ultimately show ?thesis
    by (simp add: first_occurrences_def)
qed

lemma first_occurrences_eq: "first_occurrences ts = rev (remdups (rev ts))"
proof (induction ts rule: rev_induct)
  case Nil
  show ?case by (simp add: first_occurrences_def)
next
  case (snoc x ts)
  then show ?case by (simp add: first_occurrences_snoc)
qed

text \<open>
  C7. The validator fails with \<open>InvalidTopping t\<close> for the leftmost entry \<open>t\<close> that
  is not in the catalog of twelve names. When every entry is in the catalog it returns the
  entries at their first occurrences, in input order, which is a duplicate-free list with
  the same names. A duplicate-free list of catalog names is returned unchanged, so
  validating a result again changes nothing, and
  \<open>[pepperoni, pepperoni, bacon]\<close> becomes \<open>[pepperoni, bacon]\<close>.
\<close>

theorem validate_toppings_spec:
  "length TOPPINGS = 12 \<and>
   (set pre \<subseteq> set TOPPINGS \<and> t \<notin> set TOPPINGS \<longrightarrow>
      validate_toppings (pre @ t # post) = Inl (InvalidTopping t)) \<and>
   (set ts \<subseteq> set TOPPINGS \<longrightarrow>
      validate_toppings ts = Inr (first_occurrences ts) \<and>
      distinct (first_occurrences ts) \<and> set (first_occurrences ts) = set ts) \<and>
   (set ts \<subseteq> set TOPPINGS \<and> distinct ts \<longrightarrow> validate_toppings ts = Inr ts) \<and>
   (validate_toppings ts = Inr r \<longrightarrow> validate_toppings r = Inr r) \<and>
   validate_toppings [''pepperoni'', ''pepperoni'', ''bacon''] = Inr [''pepperoni'', ''bacon'']"
proof (intro conjI impI)
  show "length TOPPINGS = 12"
    by (simp add: TOPPINGS_def)
next
  assume "set pre \<subseteq> set TOPPINGS \<and> t \<notin> set TOPPINGS"
  then show "validate_toppings (pre @ t # post) = Inl (InvalidTopping t)"
    by (simp add: validate_toppings_first_unknown)
next
  assume "set ts \<subseteq> set TOPPINGS"
  then show "validate_toppings ts = Inr (first_occurrences ts)"
    by (simp add: validate_toppings_ok first_occurrences_eq)
next
  show "distinct (first_occurrences ts)"
    by (simp add: first_occurrences_eq)
next
  show "set (first_occurrences ts) = set ts"
    by (simp add: first_occurrences_eq)
next
  assume "set ts \<subseteq> set TOPPINGS \<and> distinct ts"
  then show "validate_toppings ts = Inr ts"
    by (simp add: validate_toppings_ok first_occurrence_id)
next
  assume ok: "validate_toppings ts = Inr r"
  have r: "r = rev (remdups (rev ts))" and sub: "set ts \<subseteq> set TOPPINGS"
    using validate_toppings_result [OF ok] by simp_all
  have "set r \<subseteq> set TOPPINGS" "distinct r"
    using r sub by simp_all
  then show "validate_toppings r = Inr r"
    by (simp add: validate_toppings_ok first_occurrence_id)
next
  have "set [''pepperoni'', ''pepperoni'', ''bacon''] \<subseteq> set TOPPINGS"
    by (simp add: TOPPINGS_def)
  then show "validate_toppings [''pepperoni'', ''pepperoni'', ''bacon''] = Inr [''pepperoni'', ''bacon'']"
    by (simp add: validate_toppings_ok)
qed

theorem validate_toppings_spec_witness:
  "validate_toppings [''bacon'', ''tofu'', ''ham'', ''kale''] = Inl (InvalidTopping ''tofu'') \<and>
   validate_toppings [''ham'', ''bacon'', ''ham'', ''onions'', ''bacon''] = Inr [''ham'', ''bacon'', ''onions''] \<and>
   validate_toppings [''ham'', ''bacon'', ''onions''] = Inr [''ham'', ''bacon'', ''onions'']"
proof -
  note spec = validate_toppings_spec [where pre = "[''bacon'']" and t = "''tofu''"
      and post = "[''ham'', ''kale'']" and ts = "[''ham'', ''bacon'', ''ham'', ''onions'', ''bacon'']"
      and r = "[''ham'', ''bacon'', ''onions'']"]
  have a: "set [''bacon''] \<subseteq> set TOPPINGS \<and> ''tofu'' \<notin> set TOPPINGS"
    by (simp add: TOPPINGS_def)
  have b: "set [''ham'', ''bacon'', ''ham'', ''onions'', ''bacon''] \<subseteq> set TOPPINGS"
    by (simp add: TOPPINGS_def)
  have d: "first_occurrences [''ham'', ''bacon'', ''ham'', ''onions'', ''bacon''] = [''ham'', ''bacon'', ''onions'']"
    by (simp add: first_occurrences_eq)
  from spec a have "validate_toppings ([''bacon''] @ ''tofu'' # [''ham'', ''kale'']) = Inl (InvalidTopping ''tofu'')"
    by blast
  then have 1: "validate_toppings [''bacon'', ''tofu'', ''ham'', ''kale''] = Inl (InvalidTopping ''tofu'')"
    by simp
  from spec b have "validate_toppings [''ham'', ''bacon'', ''ham'', ''onions'', ''bacon''] =
      Inr (first_occurrences [''ham'', ''bacon'', ''ham'', ''onions'', ''bacon''])"
    by blast
  then have 2: "validate_toppings [''ham'', ''bacon'', ''ham'', ''onions'', ''bacon''] = Inr [''ham'', ''bacon'', ''onions'']"
    by (simp only: d)
  from spec 2 have 3: "validate_toppings [''ham'', ''bacon'', ''onions''] = Inr [''ham'', ''bacon'', ''onions'']"
    by blast
  from 1 2 3 show ?thesis by blast
qed

section \<open>Cart store operations\<close>

lemma pop_nth:
  "i < length xs \<Longrightarrow>
   length (pop xs i) = length xs - 1 \<and>
   (\<forall>j < i. pop xs i ! j = xs ! j) \<and>
   (\<forall>j. i \<le> j \<and> j < length xs - 1 \<longrightarrow> pop xs i ! j = xs ! Suc j)"
  by (auto simp: pop_def nth_append min_def)

lemma demo_store_cart: "CARTS demo_store ''cart_0123456789ab'' = Some demo_cart"
  by (simp add: demo_store_def put_cart_def)

lemma demo_store_no_cart: "CARTS demo_store ''cart_ffffffffffff'' = None"
  by (simp add: demo_store_def put_cart_def empty_store_def)

lemma demo_cart_items:
  "items demo_cart =
     [CartPizzaItem ''Custom Pizza'' demo_pizza 2, CartDrinkItem coke 1, CartDrinkItem water 3]"
  by (simp add: demo_cart_def)

text \<open>
  C8. For a cart that exists and an index below its item count, \<open>remove_item\<close> stores
  the cart with exactly the item at that index removed: the items before it keep their
  index, and every later item moves down by one, so that after removing index 1 of three
  items the former third item is at index 1. It fails with \<open>CartNotFound\<close> for an
  unknown cart id and with \<open>InvalidIndex\<close> for an index that is not below the item
  count, and the store is then unchanged.
\<close>

theorem remove_item_spec:
  "(CARTS s cid = Some cart \<and> index < length (items cart) \<longrightarrow>
      (\<exists>cart' resp. remove_item s cid index = (put_cart s cid cart', resp) \<and>
         CARTS (fst (remove_item s cid index)) cid = Some cart' \<and>
         cart_id cart' = cart_id cart \<and>
         length (items cart') = length (items cart) - 1 \<and>
         (\<forall>j < index. items cart' ! j = items cart ! j) \<and>
         (\<forall>j. index \<le> j \<and> j < length (items cart') \<longrightarrow> items cart' ! j = items cart ! Suc j) \<and>
         (items cart = [a, b, c] \<and> index = 1 \<longrightarrow> items cart' ! 1 = c))) \<and>
   (CARTS s cid = None \<longrightarrow> remove_item s cid index = (s, Inl CartNotFound)) \<and>
   (CARTS s cid = Some cart \<and> length (items cart) \<le> index \<longrightarrow>
      remove_item s cid index = (s, Inl InvalidIndex))"
proof (intro conjI impI)
  assume h: "CARTS s cid = Some cart \<and> index < length (items cart)"
  let ?c = "cart\<lparr>items := pop (items cart) index\<rparr>"
  have run: "remove_item s cid index = (put_cart s cid ?c, with_totals ?c)"
    using h by (simp add: remove_item_def Let_def)
  have "CARTS (fst (remove_item s cid index)) cid = Some ?c"
    by (simp add: run put_cart_def)
  moreover have "items ?c = [a, c]" if "items cart = [a, b, c]" "index = 1"
    using that by (simp add: pop_def)
  ultimately show "\<exists>cart' resp. remove_item s cid index = (put_cart s cid cart', resp) \<and>
         CARTS (fst (remove_item s cid index)) cid = Some cart' \<and>
         cart_id cart' = cart_id cart \<and>
         length (items cart') = length (items cart) - 1 \<and>
         (\<forall>j < index. items cart' ! j = items cart ! j) \<and>
         (\<forall>j. index \<le> j \<and> j < length (items cart') \<longrightarrow> items cart' ! j = items cart ! Suc j) \<and>
         (items cart = [a, b, c] \<and> index = 1 \<longrightarrow> items cart' ! 1 = c)"
    using run pop_nth [of index "items cart"] h
    by (intro exI [of _ ?c] exI [of _ "with_totals ?c"]) auto
next
  assume "CARTS s cid = None"
  then show "remove_item s cid index = (s, Inl CartNotFound)"
    by (simp add: remove_item_def)
next
  assume "CARTS s cid = Some cart \<and> length (items cart) \<le> index"
  then show "remove_item s cid index = (s, Inl InvalidIndex)"
    by (simp add: remove_item_def)
qed

theorem remove_item_spec_witness:
  "(\<exists>cart'. CARTS (fst (remove_item demo_store ''cart_0123456789ab'' 1)) ''cart_0123456789ab'' = Some cart' \<and>
      length (items cart') = 2 \<and>
      items cart' ! 0 = CartPizzaItem ''Custom Pizza'' demo_pizza 2 \<and>
      items cart' ! 1 = CartDrinkItem water 3) \<and>
   remove_item demo_store ''cart_ffffffffffff'' 0 = (demo_store, Inl CartNotFound) \<and>
   remove_item demo_store ''cart_0123456789ab'' 3 = (demo_store, Inl InvalidIndex)"
proof -
  have h1: "CARTS demo_store ''cart_0123456789ab'' = Some demo_cart \<and> 1 < length (items demo_cart)"
    by (simp add: demo_store_cart demo_cart_items)
  have h2: "CARTS demo_store ''cart_0123456789ab'' = Some demo_cart \<and> length (items demo_cart) \<le> 3"
    by (simp add: demo_store_cart demo_cart_items)
  note spec1 = remove_item_spec [where s = demo_store and cid = "''cart_0123456789ab''"
      and cart = demo_cart and index = 1 and a = "CartPizzaItem ''Custom Pizza'' demo_pizza 2"
      and b = "CartDrinkItem coke 1" and c = "CartDrinkItem water 3"]
  from spec1 h1 obtain cart' where
    c: "CARTS (fst (remove_item demo_store ''cart_0123456789ab'' 1)) ''cart_0123456789ab'' = Some cart'"
      "length (items cart') = length (items demo_cart) - 1"
      "\<forall>j < 1. items cart' ! j = items demo_cart ! j"
      "items demo_cart = [CartPizzaItem ''Custom Pizza'' demo_pizza 2, CartDrinkItem coke 1,
         CartDrinkItem water 3] \<and> (1::nat) = 1 \<longrightarrow> items cart' ! 1 = CartDrinkItem water 3"
    by blast
  have 1: "\<exists>cart'. CARTS (fst (remove_item demo_store ''cart_0123456789ab'' 1)) ''cart_0123456789ab'' = Some cart' \<and>
      length (items cart') = 2 \<and>
      items cart' ! 0 = CartPizzaItem ''Custom Pizza'' demo_pizza 2 \<and>
      items cart' ! 1 = CartDrinkItem water 3"
    using c by (intro exI [of _ cart']) (simp add: demo_cart_items)
  have 2: "remove_item demo_store ''cart_ffffffffffff'' 0 = (demo_store, Inl CartNotFound)"
    using remove_item_spec [where s = demo_store and cid = "''cart_ffffffffffff''" and index = 0]
      demo_store_no_cart by blast
  have 3: "remove_item demo_store ''cart_0123456789ab'' 3 = (demo_store, Inl InvalidIndex)"
    using remove_item_spec [where s = demo_store and cid = "''cart_0123456789ab''"
        and cart = demo_cart and index = 3] h2 by blast
  from 1 2 3 show ?thesis by blast
qed

text \<open>
  C9. For a cart that exists, \<open>add_drink\<close> with the drink type \<open>none\<close> fails with
  \<open>InvalidDrinkSelection\<close> and leaves the store, and so the cart's item list, as it was.
  With any other drink type it stores the cart with the item appended at the end of the
  item list.
\<close>

theorem add_drink_spec:
  "CARTS s cid = Some cart \<longrightarrow>
     add_drink s cid (CartDrinkItem drink_none q) = (s, Inl InvalidDrinkSelection) \<and>
     (d \<noteq> drink_none \<longrightarrow>
        (\<exists>cart'. add_drink s cid (CartDrinkItem d q) = (put_cart s cid cart', with_totals cart') \<and>
           CARTS (fst (add_drink s cid (CartDrinkItem d q))) cid = Some cart' \<and>
           cart_id cart' = cart_id cart \<and>
           items cart' = items cart @ [CartDrinkItem d q]))"
  by (auto simp: put_cart_def Let_def)

theorem add_drink_spec_witness:
  "add_drink demo_store ''cart_0123456789ab'' (CartDrinkItem drink_none 1) =
     (demo_store, Inl InvalidDrinkSelection) \<and>
   (\<exists>cart'. CARTS (fst (add_drink demo_store ''cart_0123456789ab'' (CartDrinkItem sprite 2)))
        ''cart_0123456789ab'' = Some cart' \<and>
      items cart' =
        [CartPizzaItem ''Custom Pizza'' demo_pizza 2, CartDrinkItem coke 1, CartDrinkItem water 3,
         CartDrinkItem sprite 2])"
proof -
  note spec = add_drink_spec [where s = demo_store and cid = "''cart_0123456789ab''"
      and cart = demo_cart and q = 1 and d = sprite]
  note spec2 = add_drink_spec [where s = demo_store and cid = "''cart_0123456789ab''"
      and cart = demo_cart and q = 2 and d = sprite]
  have ne: "sprite \<noteq> drink_none" by simp
  from spec demo_store_cart
  have 1: "add_drink demo_store ''cart_0123456789ab'' (CartDrinkItem drink_none 1) =
     (demo_store, Inl InvalidDrinkSelection)"
    by blast
  from spec2 demo_store_cart ne obtain cart' where
    "CARTS (fst (add_drink demo_store ''cart_0123456789ab'' (CartDrinkItem sprite 2)))
        ''cart_0123456789ab'' = Some cart'"
    "items cart' = items demo_cart @ [CartDrinkItem sprite 2]"
    by blast
  then have 2: "\<exists>cart'. CARTS (fst (add_drink demo_store ''cart_0123456789ab'' (CartDrinkItem sprite 2)))
        ''cart_0123456789ab'' = Some cart' \<and>
      items cart' =
        [CartPizzaItem ''Custom Pizza'' demo_pizza 2, CartDrinkItem coke 1, CartDrinkItem water 3,
         CartDrinkItem sprite 2]"
    by (intro exI [of _ cart']) (simp add: demo_cart_items)
  from 1 2 show ?thesis by blast
qed

section \<open>The toppings of stored pizzas\<close>

lemma carts_ok_put:
  "carts_ok s \<Longrightarrow> \<forall>it \<in> set (items cart). toppings_ok it \<Longrightarrow> carts_ok (put_cart s cid cart)"
  by (auto simp: carts_ok_def put_cart_def ran_def split: if_splits)

lemma carts_ok_lookup:
  "carts_ok s \<Longrightarrow> CARTS s cid = Some cart \<Longrightarrow> \<forall>it \<in> set (items cart). toppings_ok it"
  by (auto simp: carts_ok_def ran_def)

lemma carts_ok_orders: "carts_ok (s\<lparr>ORDERS := os\<rparr>) = carts_ok s"
  by (simp add: carts_ok_def)

lemma toppings_ok_set_qty: "toppings_ok (set_qty it q) = toppings_ok it"
  by (cases it) simp_all

lemma set_pop_subset: "set (pop xs i) \<subseteq> set xs"
  by (auto simp: pop_def dest: in_set_takeD in_set_dropD)

lemma validated_toppings_ok:
  "validate_toppings (toppings c) = Inr ts \<Longrightarrow> toppings_ok (CartPizzaItem n (c\<lparr>toppings := ts\<rparr>) q)"
  using validate_toppings_result [of "toppings c" ts] by auto

lemma carts_ok_create_cart: "carts_ok s \<Longrightarrow> carts_ok (fst (create_cart s u))"
  by (simp add: create_cart_def Let_def carts_ok_put)

lemma carts_ok_add_pizza: "carts_ok s \<Longrightarrow> carts_ok (fst (add_pizza s cid it))"
proof (cases it)
  case (CartPizzaItem n c q)
  assume ok: "carts_ok s"
  show ?thesis
  proof (cases "CARTS s cid")
    case None
    then show ?thesis using ok CartPizzaItem by simp
  next
    case (Some cart)
    show ?thesis
    proof (cases "validate_toppings (toppings c)")
      case (Inl e)
      then show ?thesis using ok CartPizzaItem Some by simp
    next
      case (Inr ts)
      have "\<forall>x \<in> set (items cart @ [CartPizzaItem n (c\<lparr>toppings := ts\<rparr>) q]). toppings_ok x"
        using carts_ok_lookup [OF ok Some] validated_toppings_ok [OF Inr] by auto
      then show ?thesis
        using ok CartPizzaItem Some Inr by (simp add: Let_def carts_ok_put)
    qed
  qed
next
  case (CartDrinkItem d q)
  assume "carts_ok s"
  then show ?thesis using CartDrinkItem by simp
qed

lemma carts_ok_add_drink: "carts_ok s \<Longrightarrow> carts_ok (fst (add_drink s cid it))"
proof (cases it)
  case (CartPizzaItem n c q)
  assume "carts_ok s"
  then show ?thesis using CartPizzaItem by simp
next
  case (CartDrinkItem d q)
  assume ok: "carts_ok s"
  show ?thesis
  proof (cases "CARTS s cid")
    case None
    then show ?thesis using ok CartDrinkItem by simp
  next
    case (Some cart)
    have "\<forall>x \<in> set (items cart @ [CartDrinkItem d q]). toppings_ok x"
      using carts_ok_lookup [OF ok Some] by auto
    then show ?thesis
      using ok CartDrinkItem Some by (simp add: Let_def carts_ok_put)
  qed
qed

lemma carts_ok_update_qty: "carts_ok s \<Longrightarrow> carts_ok (fst (update_qty s cid index q))"
proof (cases "CARTS s cid")
  case None
  assume "carts_ok s"
  then show ?thesis using None by (simp add: update_qty_def)
next
  case (Some cart)
  assume ok: "carts_ok s"
  have old: "\<forall>x \<in> set (items cart). toppings_ok x"
    by (rule carts_ok_lookup [OF ok Some])
  show ?thesis
  proof (cases "length (items cart) \<le> index")
    case True
    then show ?thesis using ok Some by (simp add: update_qty_def)
  next
    case False
    then have "toppings_ok (items cart ! index)"
      using old by simp
    then have "\<forall>x \<in> set ((items cart)[index := set_qty (items cart ! index) q]). toppings_ok x"
      using old set_update_subset_insert [of "items cart" index "set_qty (items cart ! index) q"]
      by (auto simp: toppings_ok_set_qty)
    then show ?thesis
      using ok Some False by (simp add: update_qty_def Let_def carts_ok_put)
  qed
qed

lemma carts_ok_remove_item: "carts_ok s \<Longrightarrow> carts_ok (fst (remove_item s cid index))"
proof (cases "CARTS s cid")
  case None
  assume "carts_ok s"
  then show ?thesis using None by (simp add: remove_item_def)
next
  case (Some cart)
  assume ok: "carts_ok s"
  have "\<forall>x \<in> set (pop (items cart) index). toppings_ok x"
    using carts_ok_lookup [OF ok Some] set_pop_subset [of "items cart" index] by auto
  then show ?thesis
    using ok Some by (simp add: remove_item_def Let_def carts_ok_put)
qed

lemma carts_ok_clear_cart: "carts_ok s \<Longrightarrow> carts_ok (fst (clear_cart s cid))"
  by (cases "CARTS s cid") (simp_all add: clear_cart_def Let_def carts_ok_put)

lemma carts_ok_place_order: "carts_ok s \<Longrightarrow> carts_ok (fst (place_order s cid cust pay env))"
  by (auto simp: place_order_def Let_def carts_ok_orders carts_ok_put
      split: option.splits sum.splits)

lemma carts_ok_handle: "carts_ok s \<Longrightarrow> carts_ok (handle s r)"
  by (cases r)
    (simp_all add: carts_ok_create_cart carts_ok_add_pizza carts_ok_add_drink
      carts_ok_update_qty carts_ok_remove_item carts_ok_clear_cart carts_ok_place_order)

lemma reachable_carts_ok: "reachable s \<Longrightarrow> carts_ok s"
proof (induction rule: reachable.induct)
  case initial
  show ?case by (simp add: carts_ok_def empty_store_def)
next
  case (step s r)
  then show ?case by (simp add: carts_ok_handle)
qed


text \<open>
  C10. In every store that a sequence of calls produces from the empty store, every pizza
  item of every cart has a duplicate-free list of toppings from the catalog. Every call
  that changes the store (creating a cart, adding a pizza or a drink, updating a
  quantity, removing an item, clearing, placing an order) keeps that property, and
  \<open>add_pizza\<close> appends the item with the validator's result as its toppings.
\<close>

theorem cart_toppings_invariant:
  "(reachable s \<longrightarrow> carts_ok s) \<and>
   (carts_ok s \<longrightarrow> carts_ok (handle s r)) \<and>
   (CARTS s cid = Some cart \<and> validate_toppings (toppings c) = Inr ts \<longrightarrow>
      CARTS (fst (add_pizza s cid (CartPizzaItem n c q))) cid =
        Some (cart\<lparr>items := items cart @ [CartPizzaItem n (c\<lparr>toppings := ts\<rparr>) q]\<rparr>))"
  by (auto simp: reachable_carts_ok carts_ok_handle put_cart_def Let_def)

theorem cart_toppings_invariant_witness:
  "carts_ok
     (handle (handle (handle empty_store (CreateCart ''0123456789abcdef0123456789abcdef''))
        (AddPizza ''cart_0123456789ab''
           (CartPizzaItem ''Custom Pizza'' (demo_pizza\<lparr>toppings := [''ham'', ''bacon'', ''ham'']\<rparr>) 1)))
        (UpdateQty ''cart_0123456789ab'' 0 5)) \<and>
   CARTS (fst (add_pizza demo_store ''cart_0123456789ab''
      (CartPizzaItem ''Custom Pizza'' (demo_pizza\<lparr>toppings := [''ham'', ''bacon'', ''ham'']\<rparr>) 1)))
      ''cart_0123456789ab'' =
     Some (demo_cart\<lparr>items := items demo_cart @
       [CartPizzaItem ''Custom Pizza'' (demo_pizza\<lparr>toppings := [''ham'', ''bacon'']\<rparr>) 1]\<rparr>)"
proof -
  let ?s = "handle (handle (handle empty_store (CreateCart ''0123456789abcdef0123456789abcdef''))
        (AddPizza ''cart_0123456789ab''
           (CartPizzaItem ''Custom Pizza'' (demo_pizza\<lparr>toppings := [''ham'', ''bacon'', ''ham'']\<rparr>) 1)))
        (UpdateQty ''cart_0123456789ab'' 0 5)"
  have r: "reachable ?s"
    by (intro reachable.step reachable.initial)
  have v: "validate_toppings (toppings (demo_pizza\<lparr>toppings := [''ham'', ''bacon'', ''ham'']\<rparr>)) =
      Inr [''ham'', ''bacon'']"
    by (simp add: validate_toppings_ok TOPPINGS_def)
  have 1: "carts_ok ?s"
    using cart_toppings_invariant [where s = ?s] r by blast
  have 2: "CARTS (fst (add_pizza demo_store ''cart_0123456789ab''
      (CartPizzaItem ''Custom Pizza'' (demo_pizza\<lparr>toppings := [''ham'', ''bacon'', ''ham'']\<rparr>) 1)))
      ''cart_0123456789ab'' =
     Some (demo_cart\<lparr>items := items demo_cart @
       [CartPizzaItem ''Custom Pizza''
          (demo_pizza\<lparr>toppings := [''ham'', ''bacon'', ''ham''], toppings := [''ham'', ''bacon'']\<rparr>) 1]\<rparr>)"
    using cart_toppings_invariant [where s = demo_store and cid = "''cart_0123456789ab''"
        and cart = demo_cart and c = "demo_pizza\<lparr>toppings := [''ham'', ''bacon'', ''ham'']\<rparr>"
        and ts = "[''ham'', ''bacon'']" and n = "''Custom Pizza''" and q = 1]
      demo_store_cart v by blast
  from 1 2 show ?thesis by simp
qed

section \<open>The payment authorizer\<close>








lemma last4: "4 \<le> length ds \<Longrightarrow> drop (length ds - 4) ds = rev (take 4 (rev ds))"
  by (simp add: take_rev)






section \<open>A declined payment\<close>

lemma demo_totals_eq: "compute_totals demo_cart = Inr demo_totals"
  by code_simp


lemma demo_auth_gift:
  "mock_authorize (unicode_data demo_env) (pay_giftcard (str_lit ''decline'')) (total_amt demo_totals)
     (auth_uuid_hex demo_env) (now_year demo_env) (now_month demo_env) =
   Inr (Declined ''Mock gift card declined'')"
  by (simp add: mock_authorize_def validate_required_def pay_giftcard_def pay_cash_def
      or_empty_def demo_env_def demo_unicode_def ascii_upper_def strip_def str_lit_def)

text \<open>
  C2. When \<open>place_order\<close> reaches the authorizer (the cart exists, has items, and its
  totals are computed) and the authorizer declines, the call returns the answer with
  \<open>ok\<close> false that carries the decline reason and echoes cart, totals and customer, and
  the store is the store before the call: the cart keeps its non-empty item list and
  \<open>get_order\<close> answers every identifier as before. Conversely every answer of
  \<open>place_order\<close> with \<open>ok\<close> false comes with an unchanged store.
\<close>

theorem place_order_declined:
  "(CARTS s cid = Some cart \<and> items cart \<noteq> [] \<and> compute_totals cart = Inr tots \<and>
    mock_authorize (unicode_data env) pay (total_amt tots) (auth_uuid_hex env) (now_year env)
      (now_month env) =
      Inr (Declined r) \<longrightarrow>
      place_order s cid cust pay env = (s, Inr (PaymentDeclined (Declined r) cart tots cust)) \<and>
      \<not> ok (PaymentDeclined (Declined r) cart tots cust) \<and>
      reason (declined_payment (PaymentDeclined (Declined r) cart tots cust)) = r \<and>
      CARTS (fst (place_order s cid cust pay env)) cid = Some cart \<and>
      (\<forall>oid. get_order (fst (place_order s cid cust pay env)) oid = get_order s oid)) \<and>
   (place_order s cid cust pay env = (s', Inr resp) \<and> \<not> ok resp \<longrightarrow>
      s' = s \<and> (\<exists>c. CARTS s' cid = Some c \<and> items c \<noteq> [] \<and> echo_cart resp = c) \<and>
      \<not> approved (declined_payment resp))"
proof (intro conjI impI)
  assume h: "CARTS s cid = Some cart \<and> items cart \<noteq> [] \<and> compute_totals cart = Inr tots \<and>
    mock_authorize (unicode_data env) pay (total_amt tots) (auth_uuid_hex env) (now_year env)
      (now_month env) =
      Inr (Declined r)"
  then show run: "place_order s cid cust pay env = (s, Inr (PaymentDeclined (Declined r) cart tots cust))"
    by (simp add: place_order_def)
  show "\<not> ok (PaymentDeclined (Declined r) cart tots cust)" by simp
  show "reason (declined_payment (PaymentDeclined (Declined r) cart tots cust)) = r" by simp
  show "CARTS (fst (place_order s cid cust pay env)) cid = Some cart"
    using h by (simp add: run)
  show "\<forall>oid. get_order (fst (place_order s cid cust pay env)) oid = get_order s oid"
    by (simp add: run)
next
  assume h: "place_order s cid cust pay env = (s', Inr resp) \<and> \<not> ok resp"
  then show "s' = s"
    by (auto simp: place_order_def Let_def split: option.splits if_splits sum.splits)
  from h show "\<exists>c. CARTS s' cid = Some c \<and> items c \<noteq> [] \<and> echo_cart resp = c"
    by (auto simp: place_order_def Let_def split: option.splits if_splits sum.splits)
  from h show "\<not> approved (declined_payment resp)"
    by (auto simp: place_order_def Let_def split: option.splits if_splits sum.splits)
qed

theorem place_order_declined_witness:
  "place_order demo_store ''cart_0123456789ab'' demo_customer (pay_giftcard (str_lit ''decline'')) demo_env =
     (demo_store,
      Inr (PaymentDeclined (Declined ''Mock gift card declined'') demo_cart demo_totals demo_customer)) \<and>
   CARTS (fst (place_order demo_store ''cart_0123456789ab'' demo_customer (pay_giftcard (str_lit ''decline''))
      demo_env)) ''cart_0123456789ab'' = Some demo_cart \<and>
   get_order (fst (place_order demo_store ''cart_0123456789ab'' demo_customer
      (pay_giftcard (str_lit ''decline'')) demo_env)) ''order_fedcba987654'' = Inl OrderNotFound"
proof -
  have ne: "items demo_cart \<noteq> []"
    by (simp add: demo_cart_items)
  have none: "get_order demo_store ''order_fedcba987654'' = Inl OrderNotFound"
    by (simp add: get_order_def demo_store_def put_cart_def empty_store_def)
  note spec = place_order_declined [where s = demo_store and cid = "''cart_0123456789ab''"
      and cart = demo_cart and tots = demo_totals and pay = "pay_giftcard (str_lit ''decline'')"
      and env = demo_env and r = "''Mock gift card declined''" and cust = demo_customer]
  from spec demo_store_cart ne demo_totals_eq demo_auth_gift
  have "place_order demo_store ''cart_0123456789ab'' demo_customer (pay_giftcard (str_lit ''decline'')) demo_env =
     (demo_store,
      Inr (PaymentDeclined (Declined ''Mock gift card declined'') demo_cart demo_totals demo_customer))"
    by blast
  then show ?thesis
    using demo_store_cart none by simp
qed

section \<open>Rounding to the nearest double\<close>

lemma round_half_even_error: "\<bar>of_int (round_half_even x) - x\<bar> \<le> 1 / 2"
proof -
  have "of_int \<lfloor>x\<rfloor> \<le> x" "x < of_int \<lfloor>x\<rfloor> + 1"
    by linarith+
  then show ?thesis
    by (auto simp: round_half_even_def Let_def abs_le_iff)
qed

lemma round_half_even_near:
  assumes "\<bar>x - of_int k\<bar> < 1 / 2"
  shows "round_half_even x = k"
proof -
  have "\<bar>of_int (round_half_even x) - x\<bar> \<le> 1 / 2"
    by (rule round_half_even_error)
  with assms have "\<bar>(of_int (round_half_even x) :: rat) - of_int k\<bar> < 1"
    by linarith
  then have "\<bar>(of_int (round_half_even x - k) :: rat)\<bar> < 1"
    by simp
  then have "\<bar>round_half_even x - k\<bar> < 1"
    by (metis of_int_abs of_int_less_1_iff)
  then show ?thesis by linarith
qed

lemma round_half_even_of_int: "round_half_even (of_int k) = k"
  by (rule round_half_even_near) simp

lemma ilog2_le:
  assumes "0 < x"
  shows "2 powi (ilog2 x) \<le> x"
proof -
  obtain p q where pq: "quotient_of x = (p, q)"
    by (cases "quotient_of x")
  then have q: "0 < q" and x: "x = of_int p / of_int q"
    using quotient_of_denom_pos quotient_of_div by auto
  with assms have p: "0 < p"
    by (simp add: zero_less_divide_iff)
  let ?d = "bitlen p - bitlen q"
  show ?thesis
  proof (cases "(2::rat) powi ?d \<le> x")
    case True
    then show ?thesis using pq by (simp add: ilog2_def)
  next
    case False
    have bp: "2 ^ nat (bitlen p - 1) \<le> p" and bq: "q < 2 ^ nat (bitlen q)"
      using bitlen_bounds [OF p] bitlen_bounds [OF q] by auto
    have bp1: "1 \<le> bitlen p" and bq0: "0 \<le> bitlen q"
      using p bitlen_nonneg [of q] by (auto simp: bitlen_alt_def)
    have "(2::rat) powi (?d - 1) = 2 powi (bitlen p - 1) / 2 powi (bitlen q)"
      by (simp add: power_int_diff)
    also have "\<dots> = 2 ^ nat (bitlen p - 1) / 2 ^ nat (bitlen q)"
      using bp1 bq0 by (simp add: power_int_nonneg_exp)
    also have "\<dots> \<le> of_int p / of_int q"
    proof -
      have "(2::rat) ^ nat (bitlen p - 1) \<le> of_int p"
        using bp by (metis of_int_le_iff of_int_numeral of_int_power)
      moreover have "(of_int q :: rat) \<le> 2 ^ nat (bitlen q)"
        using bq by (metis less_imp_le of_int_le_iff of_int_numeral of_int_power)
      moreover have "(0::rat) < of_int q" using q by simp
      moreover have "(0::rat) \<le> of_int p" using p by simp
      ultimately show ?thesis
        by (intro frac_le)
    qed
    finally have "(2::rat) powi (?d - 1) \<le> x" using x by simp
    then show ?thesis using pq False by (simp add: ilog2_def)
  qed
qed

lemma spacing_pos: "0 < spacing x"
  by (simp add: spacing_def)

lemma nearest_double_spacing:
  "x \<noteq> 0 \<Longrightarrow> nearest_double x = of_int (round_half_even (x / spacing x)) * spacing x"
  by (simp add: nearest_double_def)

lemma nearest_double_half_spacing:
  assumes "x \<noteq> 0"
  shows "\<bar>nearest_double x - x\<bar> \<le> spacing x / 2"
proof -
  let ?u = "spacing x"
  have u: "0 < ?u" by (rule spacing_pos)
  have "nearest_double x - x = (of_int (round_half_even (x / ?u)) - x / ?u) * ?u"
    using u assms by (simp add: nearest_double_spacing algebra_simps)
  then have "\<bar>nearest_double x - x\<bar> = \<bar>of_int (round_half_even (x / ?u)) - x / ?u\<bar> * ?u"
    using u by (simp add: abs_mult)
  also have "\<dots> \<le> (1 / 2) * ?u"
    using u round_half_even_error [of "x / ?u"] by (intro mult_right_mono) auto
  finally show ?thesis by simp
qed

lemma spacing_le:
  assumes "x \<noteq> 0" "\<bar>x\<bar> \<le> B" "1 \<le> B"
  shows "spacing x / 2 \<le> B / 2 ^ 53"
proof (cases "- 1022 \<le> ilog2 \<bar>x\<bar>")
  case True
  then have "spacing x = 2 powi (ilog2 \<bar>x\<bar>) / 2 ^ 52"
    by (simp add: spacing_def power_int_diff max_def)
  moreover have "2 powi (ilog2 \<bar>x\<bar>) \<le> \<bar>x\<bar>"
    using assms(1) by (intro ilog2_le) simp
  ultimately have "spacing x \<le> B / 2 ^ 52"
    using assms(2) by (simp add: divide_right_mono)
  then show ?thesis by simp
next
  case False
  then have "spacing x = 2 powi (- 1074)"
    by (simp add: spacing_def max_def)
  also have "\<dots> \<le> (1::rat) / 2 ^ 52"
    by (simp add: power_int_minus_divide)
  also have "\<dots> \<le> B / 2 ^ 52"
    using assms(3) by (simp add: divide_right_mono)
  finally show ?thesis by simp
qed

lemma nearest_double_error:
  assumes "\<bar>x\<bar> \<le> B" "1 \<le> B"
  shows "\<bar>nearest_double x - x\<bar> \<le> B / 2 ^ 53"
proof (cases "x = 0")
  case True
  then show ?thesis using assms by (simp add: nearest_double_def)
next
  case False
  then show ?thesis
    using nearest_double_half_spacing [OF False] spacing_le [OF False assms] by linarith
qed

lemma nearest_double_dyadic:
  assumes m: "\<bar>m\<bar> < 2 ^ 53" and k: "k \<le> 1022"
  shows "nearest_double (of_int m / 2 ^ k) = of_int m / 2 ^ k"
proof (cases "m = 0")
  case True
  then show ?thesis by (simp add: nearest_double_def)
next
  case False
  let ?x = "of_int m / 2 ^ k :: rat"
  have x0: "?x \<noteq> 0" using False by simp
  let ?e = "max (ilog2 \<bar>?x\<bar>) (- 1022)"
  have e: "?e \<le> 52 - int k"
  proof -
    have "ilog2 \<bar>?x\<bar> < 53 - int k"
    proof (rule ccontr)
      assume "\<not> ilog2 \<bar>?x\<bar> < 53 - int k"
      then have "(2::rat) powi (53 - int k) \<le> 2 powi (ilog2 \<bar>?x\<bar>)"
        by (intro power_int_increasing) auto
      also have "\<dots> \<le> \<bar>?x\<bar>"
        using x0 by (intro ilog2_le) simp
      finally have "(2::rat) powi (53 - int k) \<le> \<bar>of_int m\<bar> / 2 ^ k"
        by (simp add: abs_divide)
      then have "(2::rat) ^ 53 / 2 ^ k \<le> \<bar>of_int m\<bar> / 2 ^ k"
        by (simp add: power_int_diff)
      then have "(2::rat) ^ 53 \<le> \<bar>of_int m\<bar>"
        by (simp add: divide_le_cancel)
      then have "(2::int) ^ 53 \<le> \<bar>m\<bar>"
        by (metis of_int_abs of_int_le_iff of_int_numeral of_int_power)
      with m show False by simp
    qed
    with k show ?thesis by simp
  qed
  define j where "j = nat (52 - int k - ?e)"
  have j: "int j = 52 - int k - ?e" using e by (simp add: j_def)
  have sp: "spacing ?x = 2 powi (?e - 52)"
    by (simp add: spacing_def)
  have "?x / spacing ?x = of_int m * (2 powi (- int k) * 2 powi (52 - ?e))"
    by (simp add: sp power_int_minus_divide power_int_diff field_simps)
  also have "2 powi (- int k) * 2 powi (52 - ?e) = (2::rat) powi (int j)"
    unfolding j by (subst power_int_add [symmetric]) (auto simp: algebra_simps)
  finally have q: "?x / spacing ?x = of_int (m * 2 ^ j)"
    by simp
  have "nearest_double ?x = of_int (round_half_even (?x / spacing ?x)) * spacing ?x"
    by (rule nearest_double_spacing [OF x0])
  also have "\<dots> = of_int (m * 2 ^ j) * spacing ?x"
    by (simp only: q round_half_even_of_int)
  also have "\<dots> = ?x / spacing ?x * spacing ?x"
    by (simp only: q)
  also have "\<dots> = ?x"
    using spacing_pos [of ?x] by simp
  finally show ?thesis .
qed

lemma unit_roundoff_bounds: "0 < unit_roundoff" "unit_roundoff < 12 / 100000000000000000"
  by (simp_all add: unit_roundoff_def)

lemma nearest_double_roundoff:
  "\<bar>x\<bar> \<le> B \<Longrightarrow> 1 \<le> B \<Longrightarrow> \<bar>nearest_double x - x\<bar> \<le> B * unit_roundoff"
  using nearest_double_error [of x B] by (simp add: unit_roundoff_def)

lemma nearest_double_of_int: "\<bar>m\<bar> < 2 ^ 53 \<Longrightarrow> nearest_double (of_int m) = of_int m"
  using nearest_double_dyadic [of m 0] by simp

section \<open>Prices in cents\<close>

lemma round2_near:
  assumes "\<bar>x - of_int c / 100\<bar> < 1 / 200"
  shows "round2 x = nearest_double (of_int c / 100)"
proof -
  have "x * 100 - of_int c = (x - of_int c / 100) * 100"
    by (simp add: algebra_simps)
  then have "\<bar>x * 100 - of_int c\<bar> = \<bar>x - of_int c / 100\<bar> * 100"
    by (simp only: abs_mult)
  then have "\<bar>x * 100 - of_int c\<bar> < 1 / 2"
    using assms by simp
  then show ?thesis
    by (simp add: round2_def round_half_even_near)
qed

lemma fadd_quarters:
  assumes "25 dvd a" "25 dvd b" "\<bar>a + b\<bar> < 2 ^ 53"
  shows "fadd (of_int a / 100) (of_int b / 100) = of_int (a + b) / 100"
proof -
  from assms obtain a' b' where ab: "a = 25 * a'" "b = 25 * b'"
    by (auto simp: dvd_def)
  have small: "\<bar>a' + b'\<bar> < 2 ^ 53"
    using assms(3) ab by simp
  have sum: "(of_int a / 100 + of_int b / 100 :: rat) = of_int (a' + b') / 2 ^ 2"
    by (simp add: ab)
  have "fadd (of_int a / 100) (of_int b / 100) = nearest_double (of_int (a' + b') / 2 ^ 2)"
    by (simp only: fadd_def sum)
  also have "\<dots> = of_int (a' + b') / 2 ^ 2"
    by (rule nearest_double_dyadic [OF small]) simp
  also have "\<dots> = of_int (a + b) / 100"
    by (simp add: ab)
  finally show ?thesis .
qed

lemma nearest_double_values:
  "nearest_double 0 = 0" "nearest_double 2 = 2" "nearest_double 3 = 3"
  "nearest_double 10 = 10" "nearest_double 13 = 13" "nearest_double 16 = 16"
  "nearest_double (1 / 2) = 1 / 2" "nearest_double (- (1 / 2)) = - (1 / 2)"
  "nearest_double (3 / 2) = 3 / 2" "nearest_double (3 / 4) = 3 / 4"
  "nearest_double (5 / 4) = 5 / 4" "nearest_double (9 / 4) = 9 / 4"
  using nearest_double_dyadic [of 0 0] nearest_double_dyadic [of 2 0] nearest_double_dyadic [of 3 0]
    nearest_double_dyadic [of 10 0] nearest_double_dyadic [of 13 0] nearest_double_dyadic [of 16 0]
    nearest_double_dyadic [of 1 1] nearest_double_dyadic [of "- 1" 1]
    nearest_double_dyadic [of 3 1] nearest_double_dyadic [of 3 2]
    nearest_double_dyadic [of 5 2] nearest_double_dyadic [of 9 2]
  by simp_all

lemma PRICES_size_cents: "PRICES_size s = of_int (size_cents s) / 100"
  by (cases s) (simp_all add: float_lit_def nearest_double_values)

lemma PRICES_crust_cents: "PRICES_crust c = of_int (crust_cents c) / 100"
  by (cases c) (simp_all add: float_lit_def nearest_double_values)

lemma PRICES_cheese_cents: "PRICES_cheese ch = of_int (cheese_cents ch) / 100"
  by (cases ch) (simp_all add: float_lit_def nearest_double_values)

lemma PRICES_crust_flavor_cents: "PRICES_crust_flavor f = of_int (crust_flavor_cents f) / 100"
  by (cases f) (simp_all add: float_lit_def nearest_double_values)

lemma PRICES_drink_cents: "PRICES_drink d = of_int (drink_cents d) / 100"
  by (cases d) (simp_all add: float_lit_def nearest_double_values)

lemma PRICES_drizzle_near: "\<bar>PRICES_drizzle d - of_int (drizzle_cents d) / 100\<bar> \<le> unit_roundoff"
proof (cases d)
  case hot_honey
  then show ?thesis
    using nearest_double_roundoff [of "95 / 100" 1] by (simp add: float_lit_def)
qed (use unit_roundoff_bounds in \<open>simp_all add: float_lit_def nearest_double_values\<close>)

lemma size_cents_range: "25 dvd size_cents s" "1000 \<le> size_cents s" "size_cents s \<le> 1600"
  by (cases s; simp)+

lemma crust_cents_range: "25 dvd crust_cents c" "0 \<le> crust_cents c" "crust_cents c \<le> 300"
  by (cases c; simp)+

lemma cheese_cents_range: "25 dvd cheese_cents ch" "- 50 \<le> cheese_cents ch" "cheese_cents ch \<le> 150"
  by (cases ch; simp)+

lemma crust_flavor_cents_range:
  "25 dvd crust_flavor_cents f" "0 \<le> crust_flavor_cents f" "crust_flavor_cents f \<le> 75"
  by (cases f; simp)+

lemma drizzle_cents_range: "0 \<le> drizzle_cents d" "drizzle_cents d \<le> 95"
  by (cases d; simp)+

lemma drink_cents_range: "25 dvd drink_cents dr" "0 \<le> drink_cents dr" "drink_cents dr \<le> 225"
  by (cases dr; simp)+

lemma topping_cost_exact:
  assumes "n \<le> 12"
  shows "fmul PRICES_topping_each (float_of_int (int n)) = of_int (125 * int n) / 100"
proof -
  have n: "float_of_int (int n) = of_int (int n)"
    unfolding float_of_int_def using assms by (intro nearest_double_of_int) simp
  have "\<bar>5 * int n\<bar> < 2 ^ 53"
    using assms by simp
  then have "nearest_double (of_int (5 * int n) / 2 ^ 2) = of_int (5 * int n) / 2 ^ 2"
    by (rule nearest_double_dyadic) simp
  then show ?thesis
    by (simp add: fmul_def n PRICES_topping_each_def float_lit_def nearest_double_values)
qed

lemma price_sum_near:
  assumes n: "n \<le> 12"
  shows "\<bar>fadd (fadd (fadd (fadd (fadd (PRICES_size s) (PRICES_crust c)) (PRICES_cheese ch))
             (PRICES_crust_flavor f)) (PRICES_drizzle d))
           (fmul PRICES_topping_each (float_of_int (int n))) -
         of_int (size_cents s + crust_cents c + cheese_cents ch + crust_flavor_cents f +
                 drizzle_cents d + 125 * int n) / 100\<bar> \<le> 97 * unit_roundoff"
proof -
  define a where "a = size_cents s + crust_cents c + cheese_cents ch + crust_flavor_cents f"
  have s1: "fadd (PRICES_size s) (PRICES_crust c) = of_int (size_cents s + crust_cents c) / 100"
    unfolding PRICES_size_cents PRICES_crust_cents
    by (rule fadd_quarters) (use size_cents_range [of s] crust_cents_range [of c] in simp_all)
  have s2: "fadd (of_int (size_cents s + crust_cents c) / 100) (PRICES_cheese ch) =
      of_int (size_cents s + crust_cents c + cheese_cents ch) / 100"
    unfolding PRICES_cheese_cents
    by (rule fadd_quarters)
      (use size_cents_range [of s] crust_cents_range [of c] cheese_cents_range [of ch] in simp_all)
  have s3: "fadd (of_int (size_cents s + crust_cents c + cheese_cents ch) / 100) (PRICES_crust_flavor f) =
      of_int a / 100"
    unfolding PRICES_crust_flavor_cents a_def
    by (rule fadd_quarters)
      (use size_cents_range [of s] crust_cents_range [of c] cheese_cents_range [of ch]
        crust_flavor_cents_range [of f] in simp_all)
  have "950 \<le> a" "a \<le> 2125"
    using size_cents_range [of s] crust_cents_range [of c] cheese_cents_range [of ch]
      crust_flavor_cents_range [of f]
    by (simp_all add: a_def)
  then have a: "(950::rat) \<le> of_int a" "(of_int a :: rat) \<le> 2125"
    by (metis of_int_le_iff of_int_numeral)+
  define x where "x = (of_int a / 100 :: rat)"
  have x: "19 / 2 \<le> x" "x \<le> 85 / 4"
    using a by (simp_all add: x_def)
  define dc where "dc = (of_int (drizzle_cents d) / 100 :: rat)"
  have "(0::rat) \<le> of_int (drizzle_cents d)" "(of_int (drizzle_cents d) :: rat) \<le> 95"
    using drizzle_cents_range [of d] by (metis of_int_le_iff of_int_numeral of_int_0)+
  then have dc: "0 \<le> dc" "dc \<le> 1"
    by (simp_all add: dc_def)
  define dz where "dz = PRICES_drizzle d"
  have dz: "\<bar>dz - dc\<bar> \<le> unit_roundoff"
    unfolding dz_def dc_def by (rule PRICES_drizzle_near)
  note u = unit_roundoff_bounds
  define s4 where "s4 = fadd x dz"
  have b4: "\<bar>x + dz\<bar> \<le> 32"
    using x dz dc u unfolding abs_le_iff by linarith
  have e4: "\<bar>s4 - (x + dz)\<bar> \<le> 32 * unit_roundoff"
    unfolding s4_def fadd_def by (rule nearest_double_roundoff [OF b4]) simp
  define tc where "tc = (of_int (125 * int n) / 100 :: rat)"
  have tc: "0 \<le> tc" "tc \<le> 15"
    using n by (simp_all add: tc_def)
  have b5: "\<bar>s4 + tc\<bar> \<le> 64"
    using x dz dc u e4 tc unfolding abs_le_iff by linarith
  have e5: "\<bar>fadd s4 tc - (s4 + tc)\<bar> \<le> 64 * unit_roundoff"
    unfolding fadd_def by (rule nearest_double_roundoff [OF b5]) simp
  have "fadd (fadd (fadd (fadd (fadd (PRICES_size s) (PRICES_crust c)) (PRICES_cheese ch))
             (PRICES_crust_flavor f)) (PRICES_drizzle d))
           (fmul PRICES_topping_each (float_of_int (int n))) = fadd s4 tc"
    by (simp only: s1 s2 s3 s4_def x_def dz_def tc_def topping_cost_exact [OF n])
  moreover have "(of_int (size_cents s + crust_cents c + cheese_cents ch + crust_flavor_cents f +
                 drizzle_cents d + 125 * int n) / 100 :: rat) = x + dc + tc"
    by (simp add: a_def x_def dc_def tc_def add_divide_distrib)
  ultimately show ?thesis
    using e4 e5 dz unfolding abs_le_iff by (simp only:) linarith
qed

lemma validated_length:
  assumes "validate_toppings ts = Inr r"
  shows "length r = card (set ts)" and "card (set ts) \<le> 12"
proof -
  have r: "r = rev (remdups (rev ts))" and sub: "set ts \<subseteq> set TOPPINGS"
    using validate_toppings_result [OF assms] by simp_all
  show "length r = card (set ts)"
    by (simp add: r length_remdups_card_conv)
  have "card (set ts) \<le> card (set TOPPINGS)"
    using sub by (intro card_mono) simp_all
  also have "\<dots> \<le> length TOPPINGS"
    by (rule card_length)
  also have "\<dots> = 12"
    by (simp add: TOPPINGS_def)
  finally show "card (set ts) \<le> 12" .
qed

lemma price_pizza_exact:
  assumes "set (toppings c) \<subseteq> set TOPPINGS"
  shows "price_pizza c = Inr (float_lit (of_int (pizza_cents c) / 100))"
proof -
  obtain ts where ts: "validate_toppings (toppings c) = Inr ts"
    using assms validate_toppings_Inr_iff by blast
  note len = validated_length [OF ts]
  let ?raw = "fadd (fadd (fadd (fadd (fadd (PRICES_size (size_of c)) (PRICES_crust (crust c)))
      (PRICES_cheese (cheese c))) (PRICES_crust_flavor (crust_flavor c))) (PRICES_drizzle (drizzle c)))
      (fmul PRICES_topping_each (float_of_int (int (card (set (toppings c))))))"
  have "\<bar>?raw - of_int (pizza_cents c) / 100\<bar> \<le> 97 * unit_roundoff"
    unfolding pizza_cents_def by (rule price_sum_near [OF len(2)])
  then have "\<bar>?raw - of_int (pizza_cents c) / 100\<bar> < 1 / 200"
    using unit_roundoff_bounds by linarith
  then have "round2 ?raw = nearest_double (of_int (pizza_cents c) / 100)"
    by (rule round2_near)
  then show ?thesis
    by (simp add: price_pizza_def ts len(1) Let_def float_lit_def)
qed

text \<open>
  C1. For a customization whose toppings are all in the catalog, \<open>price_pizza\<close> returns
  the float sum, from left to right, of the size price, the crust, cheese, crust-flavor
  and drizzle entries and 1.25 times the number of distinct toppings, rounded to two
  decimals; that value is the double nearest to the exact decimal sum of the tables.
  With a topping outside the catalog it fails with \<open>InvalidTopping\<close> of the leftmost
  such topping. The result is a function of the priced fields alone: sauce, bake, cut and
  instructions do not change it.
\<close>

theorem price_pizza_spec:
  "(set (toppings c) \<subseteq> set TOPPINGS \<longrightarrow>
      price_pizza c =
        Inr (round2 (fadd (fadd (fadd (fadd (fadd (PRICES_size (size_of c)) (PRICES_crust (crust c)))
                 (PRICES_cheese (cheese c))) (PRICES_crust_flavor (crust_flavor c)))
                 (PRICES_drizzle (drizzle c)))
               (fmul (float_lit (125 / 100)) (float_of_int (int (card (set (toppings c)))))))) \<and>
      price_pizza c = Inr (float_lit (of_int (pizza_cents c) / 100))) \<and>
   (\<not> set (toppings c) \<subseteq> set TOPPINGS \<longrightarrow>
      (\<exists>pre t post. toppings c = pre @ t # post \<and> set pre \<subseteq> set TOPPINGS \<and>
         t \<notin> set TOPPINGS \<and> price_pizza c = Inl (InvalidTopping t))) \<and>
   price_pizza (c\<lparr>sauce := sa, bake := ba, cut := cu, instructions := ins\<rparr>) = price_pizza c"
proof (intro conjI impI)
  assume sub: "set (toppings c) \<subseteq> set TOPPINGS"
  then obtain ts where ts: "validate_toppings (toppings c) = Inr ts"
    using validate_toppings_Inr_iff by blast
  show "price_pizza c =
        Inr (round2 (fadd (fadd (fadd (fadd (fadd (PRICES_size (size_of c)) (PRICES_crust (crust c)))
                 (PRICES_cheese (cheese c))) (PRICES_crust_flavor (crust_flavor c)))
                 (PRICES_drizzle (drizzle c)))
               (fmul (float_lit (125 / 100)) (float_of_int (int (card (set (toppings c))))))))"
    by (simp add: price_pizza_def ts validated_length(1) [OF ts] Let_def PRICES_topping_each_def)
  show "price_pizza c = Inr (float_lit (of_int (pizza_cents c) / 100))"
    by (rule price_pizza_exact [OF sub])
next
  assume "\<not> set (toppings c) \<subseteq> set TOPPINGS"
  then obtain pre t post where
    s: "toppings c = pre @ t # post" "set pre \<subseteq> set TOPPINGS" "t \<notin> set TOPPINGS"
    using unknown_split by blast
  then have "price_pizza c = Inl (InvalidTopping t)"
    by (simp add: price_pizza_def validate_toppings_first_unknown)
  with s show "\<exists>pre t post. toppings c = pre @ t # post \<and> set pre \<subseteq> set TOPPINGS \<and>
         t \<notin> set TOPPINGS \<and> price_pizza c = Inl (InvalidTopping t)"
    by blast
next
  show "price_pizza (c\<lparr>sauce := sa, bake := ba, cut := cu, instructions := ins\<rparr>) = price_pizza c"
    by (simp add: price_pizza_def Let_def split: sum.splits)
qed

theorem price_pizza_spec_witness:
  "price_pizza (demo_pizza\<lparr>drizzle := hot_honey, toppings := [''ham'', ''ham'', ''bacon'']\<rparr>) =
     Inr (float_lit (1345 / 100)) \<and>
   price_pizza (demo_pizza\<lparr>toppings := [''ham'', ''tofu'', ''kale'']\<rparr>) =
     Inl (InvalidTopping ''tofu'')"
proof -
  let ?c = "demo_pizza\<lparr>drizzle := hot_honey, toppings := [''ham'', ''ham'', ''bacon'']\<rparr>"
  let ?d = "demo_pizza\<lparr>toppings := [''ham'', ''tofu'', ''kale'']\<rparr>"
  have a: "set (toppings ?c) \<subseteq> set TOPPINGS"
    by (simp add: TOPPINGS_def)
  have cents: "pizza_cents ?c = 1345"
    by (simp add: pizza_cents_def demo_pizza_def)
  from price_pizza_spec [where c = ?c] a
  have "price_pizza ?c = Inr (float_lit (of_int (pizza_cents ?c) / 100))"
    by blast
  then have 1: "price_pizza ?c = Inr (float_lit (1345 / 100))"
    unfolding cents by simp
  have b: "\<not> set (toppings ?d) \<subseteq> set TOPPINGS"
    by (simp add: TOPPINGS_def)
  from price_pizza_spec [where c = ?d] b obtain pre t post where
    s: "toppings ?d = pre @ t # post" "set pre \<subseteq> set TOPPINGS" "t \<notin> set TOPPINGS"
      "price_pizza ?d = Inl (InvalidTopping t)"
    by blast
  have "t = ''tofu''"
  proof (cases pre)
    case Nil
    then show ?thesis using s(1,3) by (simp add: TOPPINGS_def)
  next
    case (Cons x xs)
    then show ?thesis
      using s(1,2) by (cases xs) (auto simp: TOPPINGS_def)
  qed
  with s(4) have 2: "price_pizza ?d = Inl (InvalidTopping ''tofu'')"
    by simp
  from 1 2 show ?thesis by blast
qed

section \<open>Totals\<close>

text \<open>
  C5. When the subtotal of a cart is computed (and is not negative), \<open>compute_totals\<close>
  returns that subtotal, the tax \<open>round(subtotal * 0.0825, 2)\<close> and the total
  \<open>round(subtotal + tax, 2)\<close>; every result of \<open>compute_totals\<close> has that shape.
\<close>

theorem compute_totals_spec:
  "(cart_subtotal cart = Inr st \<and> 0 \<le> st \<longrightarrow>
      compute_totals cart =
        Inr \<lparr>subtotal = st,
             tax = round2 (fmul st (float_lit (825 / 10000))),
             total_amt = round2 (fadd st (round2 (fmul st (float_lit (825 / 10000)))))\<rparr>) \<and>
   (compute_totals cart = Inr tots \<longrightarrow>
      cart_subtotal cart = Inr (subtotal tots) \<and>
      tax tots = round2 (fmul (subtotal tots) (float_lit (825 / 10000))) \<and>
      total_amt tots = round2 (fadd (subtotal tots) (tax tots)))"
  by (auto simp: compute_totals_def PRICES_tax_rate_def Let_def split: sum.splits)

lemma four_waters_subtotal:
  "cart_subtotal \<lparr>cart_id = ''cart_0123456789ab'', items = [CartDrinkItem water 4]\<rparr> = Inr 6"
  by code_simp

lemma two_pizzas_subtotal:
  "cart_subtotal \<lparr>cart_id = ''cart_0123456789ab'',
     items = [CartPizzaItem ''Custom Pizza'' demo_pizza 2]\<rparr> = Inr 20"
  by code_simp

lemma tax_values:
  "round2 (fmul 6 (float_lit (825 / 10000))) = float_lit (49 / 100)"
  "round2 (fadd 6 (float_lit (49 / 100))) = float_lit (649 / 100)"
  "round2 (fmul 20 (float_lit (825 / 10000))) = float_lit (165 / 100)"
  "round2 (fadd 20 (float_lit (165 / 100))) = float_lit (2165 / 100)"
  by code_simp+

theorem compute_totals_spec_witness:
  "compute_totals \<lparr>cart_id = ''cart_0123456789ab'',
     items = [CartPizzaItem ''Custom Pizza'' demo_pizza 2]\<rparr> =
     Inr \<lparr>subtotal = 20, tax = float_lit (165 / 100), total_amt = float_lit (2165 / 100)\<rparr> \<and>
   compute_totals \<lparr>cart_id = ''cart_0123456789ab'', items = [CartDrinkItem water 4]\<rparr> =
     Inr \<lparr>subtotal = 6, tax = float_lit (49 / 100), total_amt = float_lit (649 / 100)\<rparr>"
proof -
  let ?p = "\<lparr>cart_id = ''cart_0123456789ab'', items = [CartPizzaItem ''Custom Pizza'' demo_pizza 2]\<rparr>"
  let ?w = "\<lparr>cart_id = ''cart_0123456789ab'', items = [CartDrinkItem water 4]\<rparr>"
  have pos: "(0::rat) \<le> 20" "(0::rat) \<le> 6"
    by simp_all
  from compute_totals_spec [where st = 20 and cart = ?p] two_pizzas_subtotal pos(1)
  have "compute_totals ?p =
        Inr \<lparr>subtotal = 20,
             tax = round2 (fmul 20 (float_lit (825 / 10000))),
             total_amt = round2 (fadd 20 (round2 (fmul 20 (float_lit (825 / 10000)))))\<rparr>"
    by blast
  then have 1: "compute_totals ?p =
     Inr \<lparr>subtotal = 20, tax = float_lit (165 / 100), total_amt = float_lit (2165 / 100)\<rparr>"
    by (simp only: tax_values)
  from compute_totals_spec [where st = 6 and cart = ?w] four_waters_subtotal pos(2)
  have "compute_totals ?w =
        Inr \<lparr>subtotal = 6,
             tax = round2 (fmul 6 (float_lit (825 / 10000))),
             total_amt = round2 (fadd 6 (round2 (fmul 6 (float_lit (825 / 10000)))))\<rparr>"
    by blast
  then have 2: "compute_totals ?w =
     Inr \<lparr>subtotal = 6, tax = float_lit (49 / 100), total_amt = float_lit (649 / 100)\<rparr>"
    by (simp only: tax_values)
  from 1 2 show ?thesis by blast
qed

section \<open>The subtotal loop\<close>

lemma step_error_bounds: "0 \<le> step_error" "100000 * step_error < 1 / 200"
  by (simp_all add: step_error_def unit_roundoff_def)

lemma subtotal_loop_sum_lines: "subtotal_loop its acc = sum_lines code_line_total its acc"
proof (induction its arbitrary: acc)
  case Nil
  show ?case by simp
next
  case (Cons it its)
  then show ?case
    by (cases it) (simp_all add: code_line_total_def split: sum.splits)
qed

lemma pizza_cents_range:
  assumes "set (toppings c) \<subseteq> set TOPPINGS"
  shows "0 \<le> pizza_cents c" "pizza_cents c \<le> 3720"
proof -
  have "card (set (toppings c)) \<le> 12"
    using assms validate_toppings_Inr_iff validated_length(2) by blast
  then show "0 \<le> pizza_cents c" "pizza_cents c \<le> 3720"
    using size_cents_range [of "size_of c"] crust_cents_range [of "crust c"]
      cheese_cents_range [of "cheese c"] crust_flavor_cents_range [of "crust_flavor c"]
      drizzle_cents_range [of "drizzle c"]
    by (simp_all add: pizza_cents_def)
qed

lemma price_drink_exact: "price_drink d = nearest_double (of_int (drink_cents d) / 100)"
  unfolding price_drink_def PRICES_drink_cents by (rule round2_near) simp

lemma unit_price_priceable:
  assumes "priceable it"
  shows "unit_price_of it = Inr (nearest_double (of_int (item_cents it) / 100))"
    and "0 \<le> item_cents it" and "item_cents it \<le> 3720"
proof -
  show "unit_price_of it = Inr (nearest_double (of_int (item_cents it) / 100))"
    using assms by (cases it) (simp_all add: price_pizza_exact float_lit_def price_drink_exact)
  have "0 \<le> item_cents it \<and> item_cents it \<le> 3720"
  proof (cases it)
    case (CartPizzaItem n c q)
    then show ?thesis using assms pizza_cents_range [of c] by simp
  next
    case (CartDrinkItem d q)
    then show ?thesis using drink_cents_range [of d] by simp
  qed
  then show "0 \<le> item_cents it" "item_cents it \<le> 3720"
    by simp_all
qed

lemma line_near:
  assumes c: "0 \<le> c" "c \<le> 3720" and q: "1 \<le> q" "q \<le> 20"
  defines "u \<equiv> nearest_double (of_int c / 100)"
  shows "\<bar>fmul u (float_of_int q) - of_int (c * q) / 100\<bar> \<le> 2304 * unit_roundoff"
    and "\<bar>round2 (fmul u (float_of_int q)) - of_int (c * q) / 100\<bar> \<le> 2304 * unit_roundoff"
    and "0 \<le> c * q" and "c * q \<le> 74400"
proof -
  note e = unit_roundoff_bounds
  define x where "x = (of_int c / 100 :: rat)"
  define y where "y = (of_int q :: rat)"
  have "(0::rat) \<le> of_int c" "(of_int c :: rat) \<le> 3720"
    using c by (metis of_int_le_iff of_int_numeral of_int_0)+
  then have x: "0 \<le> x" "x \<le> 186 / 5"
    by (simp_all add: x_def)
  have y: "1 \<le> y" "y \<le> 20"
    using q by (simp_all add: y_def)
  have fq: "float_of_int q = y"
    unfolding float_of_int_def y_def using q by (intro nearest_double_of_int) simp
  have "\<bar>x\<bar> \<le> 64" using x by simp
  then have eu: "\<bar>u - x\<bar> \<le> 64 * unit_roundoff"
    unfolding u_def x_def [symmetric] by (rule nearest_double_roundoff) simp
  have "u * y - x * y = (u - x) * y"
    by (simp add: algebra_simps)
  then have "\<bar>u * y - x * y\<bar> = \<bar>u - x\<bar> * \<bar>y\<bar>"
    by (simp only: abs_mult)
  also have "\<dots> = \<bar>u - x\<bar> * y"
    using y by simp
  also have "\<dots> \<le> (64 * unit_roundoff) * 20"
    using eu y by (intro mult_mono) simp_all
  finally have euy: "\<bar>u * y - x * y\<bar> \<le> 1280 * unit_roundoff"
    by simp
  have "0 \<le> x * y" using x y by simp
  moreover have "x * y \<le> (186 / 5) * 20"
    using x y by (intro mult_mono) simp_all
  ultimately have xy: "0 \<le> x * y" "x * y \<le> 744"
    by simp_all
  have "\<bar>u * y\<bar> \<le> 1024"
    using euy xy e unfolding abs_le_iff by linarith
  then have ep: "\<bar>fmul u y - u * y\<bar> \<le> 1024 * unit_roundoff"
    unfolding fmul_def by (rule nearest_double_roundoff) simp
  have cq: "(of_int (c * q) / 100 :: rat) = x * y"
    by (simp add: x_def y_def)
  show 1: "\<bar>fmul u (float_of_int q) - of_int (c * q) / 100\<bar> \<le> 2304 * unit_roundoff"
    unfolding fq cq using ep euy unfolding abs_le_iff by linarith
  then have "\<bar>fmul u (float_of_int q) - of_int (c * q) / 100\<bar> < 1 / 200"
    using e by linarith
  then have r: "round2 (fmul u (float_of_int q)) = nearest_double (of_int (c * q) / 100)"
    by (rule round2_near)
  have "\<bar>x * y\<bar> \<le> 1024" using xy by simp
  then have "\<bar>nearest_double (x * y) - x * y\<bar> \<le> 1024 * unit_roundoff"
    by (rule nearest_double_roundoff) simp
  then show "\<bar>round2 (fmul u (float_of_int q)) - of_int (c * q) / 100\<bar> \<le> 2304 * unit_roundoff"
    unfolding r cq using e by linarith
  show "0 \<le> c * q" using c q by simp
  have "c * q \<le> 3720 * 20"
    using c q by (intro mult_mono) simp_all
  then show "c * q \<le> 74400" by simp
qed

lemma priceable_qty: "priceable it \<Longrightarrow> 1 \<le> qty it \<and> qty it \<le> 20"
  by (cases it) (simp_all add: valid_qty_def)

lemma code_line_ok: "priceable it \<Longrightarrow> line_ok code_line_total it"
  using unit_price_priceable [of it] priceable_qty [of it]
    line_near(1,3,4) [of "item_cents it" "qty it"]
  by (simp add: line_ok_def code_line_total_def)

lemma spec_line_ok: "priceable it \<Longrightarrow> line_ok spec_line_total it"
  using unit_price_priceable [of it] priceable_qty [of it]
    line_near(2,3,4) [of "item_cents it" "qty it"]
  by (simp add: line_ok_def spec_line_total_def)

lemma sum_lines_near:
  assumes "\<forall>it \<in> set its. line_ok line it"
    and "\<bar>acc - of_int A / 100\<bar> \<le> of_nat k * step_error"
    and "0 \<le> A" and "A \<le> 74400 * int k"
    and "k + length its \<le> 100000"
  shows "\<exists>r. sum_lines line its acc = Inr r \<and>
     \<bar>r - of_int (A + cart_cents its) / 100\<bar> \<le> of_nat (k + length its) * step_error"
  using assms
proof (induction its arbitrary: acc A k)
  case Nil
  then show ?case by (simp add: cart_cents_def)
next
  case (Cons it its)
  define t where "t = item_cents it * qty it"
  from Cons.prems(1) obtain l where l: "line it = Inr l"
    "\<bar>l - of_int t / 100\<bar> \<le> 2304 * unit_roundoff" "0 \<le> t" "t \<le> 74400"
    by (auto simp: line_ok_def t_def)
  note e = unit_roundoff_bounds
  note se = step_error_bounds
  have k: "k < 100000" using Cons.prems(5) by simp
  define a where "a = (of_int A / 100 :: rat)"
  define b where "b = (of_int t / 100 :: rat)"
  define E where "E = (of_nat k * step_error :: rat)"
  have "(of_int 0 :: rat) \<le> of_int A" "(of_int A :: rat) \<le> of_int (74400 * int k)"
    using Cons.prems(3,4) by (simp_all only: of_int_le_iff)
  moreover have "(of_nat k :: rat) \<le> of_nat 99999"
    using k by (simp only: of_nat_le_iff)
  ultimately have a: "0 \<le> a" "a \<le> 74399256"
    by (simp_all add: a_def)
  have "(of_int 0 :: rat) \<le> of_int t" "(of_int t :: rat) \<le> of_int 74400"
    using l(3,4) by (simp_all only: of_int_le_iff)
  then have b: "0 \<le> b" "b \<le> 744"
    by (simp_all add: b_def)
  have "E \<le> 100000 * step_error"
    unfolding E_def using k se(1) by (intro mult_right_mono) simp_all
  then have E: "0 \<le> E" "E < 1 / 200"
    using se by (simp_all add: E_def)
  have acc: "\<bar>acc - a\<bar> \<le> E"
    using Cons.prems(2) by (simp add: a_def E_def)
  have lb: "\<bar>l - b\<bar> \<le> 2304 * unit_roundoff"
    using l(2) by (simp add: b_def)
  have "\<bar>acc + l\<bar> \<le> 134217728"
    using acc lb a b E e unfolding abs_le_iff by linarith
  then have "\<bar>fadd acc l - (acc + l)\<bar> \<le> 134217728 * unit_roundoff"
    unfolding fadd_def by (rule nearest_double_roundoff) simp
  then have f1: "\<bar>fadd acc l - (a + b)\<bar> \<le> E + step_error"
    using acc lb unfolding abs_le_iff step_error_def by linarith
  have f2: "(of_int (A + t) / 100 :: rat) = a + b"
    by (simp add: a_def b_def add_divide_distrib)
  have f3: "(of_nat (Suc k) * step_error :: rat) = E + step_error"
    by (simp add: E_def algebra_simps)
  have 1: "\<bar>fadd acc l - of_int (A + t) / 100\<bar> \<le> of_nat (Suc k) * step_error"
    by (simp only: f1 f2 f3)
  have 2: "0 \<le> A + t" "A + t \<le> 74400 * int (Suc k)"
    using Cons.prems(3,4) l(3,4) by simp_all
  have 3: "Suc k + length its \<le> 100000"
    using Cons.prems(5) by simp
  have 4: "\<forall>it \<in> set its. line_ok line it"
    using Cons.prems(1) by simp
  from Cons.IH [OF 4 1 2 3] obtain r where
    "sum_lines line its (fadd acc l) = Inr r"
    "\<bar>r - of_int (A + t + cart_cents its) / 100\<bar> \<le> of_nat (Suc k + length its) * step_error"
    by blast
  then show ?case
    using l(1) by (simp add: cart_cents_def t_def add.assoc)
qed

lemma sum_lines_rounded:
  assumes "\<forall>it \<in> set its. line_ok line it" "length its \<le> 100000"
  shows "\<exists>r. sum_lines line its 0 = Inr r \<and> round2 r = nearest_double (of_int (cart_cents its) / 100)"
proof -
  from sum_lines_near [of its line 0 0 0] assms obtain r where
    r: "sum_lines line its 0 = Inr r"
      "\<bar>r - of_int (cart_cents its) / 100\<bar> \<le> of_nat (length its) * step_error"
    by auto
  have "of_nat (length its) * step_error \<le> 100000 * step_error"
    using assms(2) step_error_bounds(1) by (intro mult_right_mono) simp_all
  then have "\<bar>r - of_int (cart_cents its) / 100\<bar> < 1 / 200"
    using r(2) step_error_bounds(2) by linarith
  then have "round2 r = nearest_double (of_int (cart_cents its) / 100)"
    by (rule round2_near)
  with r(1) show ?thesis by blast
qed

lemma cart_subtotal_bounded:
  assumes "length (items cart) \<le> 100000" and "\<forall>it \<in> set (items cart). priceable it"
  shows "cart_subtotal cart = spec_cart_subtotal cart \<and>
     cart_subtotal cart = Inr (float_lit (of_int (cart_cents (items cart)) / 100))"
proof -
  have "\<forall>it \<in> set (items cart). line_ok code_line_total it"
    "\<forall>it \<in> set (items cart). line_ok spec_line_total it"
    using assms(2) code_line_ok spec_line_ok by blast+
  from sum_lines_rounded [OF this(1) assms(1)] sum_lines_rounded [OF this(2) assms(1)]
  show ?thesis
    by (auto simp: cart_subtotal_def spec_cart_subtotal_def subtotal_loop_sum_lines float_lit_def)
qed

text \<open>
  C6, as amended. \<open>cart_subtotal\<close> adds the float products of unit price and
  quantity as they are, without rounding a line total, and rounds the sum to two
  decimals. For a cart of at most 100000 lines with quantities from 1 to 20 and toppings
  from the catalog that result equals the specification's subtotal, in which every line
  total is rounded before it is added, and both are the double nearest to the exact
  decimal subtotal.
\<close>

theorem cart_subtotal_spec:
  "cart_subtotal cart =
     (case sum_lines code_line_total (items cart) 0 of
        Inl e \<Rightarrow> Inl e
      | Inr tot \<Rightarrow> Inr (round2 tot)) \<and>
   (length (items cart) \<le> 100000 \<and> (\<forall>it \<in> set (items cart). priceable it) \<longrightarrow>
      cart_subtotal cart = spec_cart_subtotal cart \<and>
      cart_subtotal cart = Inr (float_lit (of_int (cart_cents (items cart)) / 100)))"
proof (intro conjI impI)
  show "cart_subtotal cart =
     (case sum_lines code_line_total (items cart) 0 of
        Inl e \<Rightarrow> Inl e
      | Inr tot \<Rightarrow> Inr (round2 tot))"
    by (simp add: cart_subtotal_def subtotal_loop_sum_lines)
next
  assume h: "length (items cart) \<le> 100000 \<and> (\<forall>it \<in> set (items cart). priceable it)"
  then show "cart_subtotal cart = spec_cart_subtotal cart"
    using cart_subtotal_bounded [of cart] by blast
  from h show "cart_subtotal cart = Inr (float_lit (of_int (cart_cents (items cart)) / 100))"
    using cart_subtotal_bounded [of cart] by blast
qed

theorem cart_subtotal_spec_witness:
  "cart_subtotal demo_cart = spec_cart_subtotal demo_cart \<and>
   cart_subtotal demo_cart = Inr (float_lit (2675 / 100))"
proof -
  have a: "length (items demo_cart) \<le> 100000 \<and> (\<forall>it \<in> set (items demo_cart). priceable it)"
    by (simp add: demo_cart_items demo_pizza_def valid_qty_def)
  have b: "cart_cents (items demo_cart) = 2675"
    by (simp add: demo_cart_items cart_cents_def pizza_cents_def demo_pizza_def)
  from cart_subtotal_spec [where cart = demo_cart] a
  have "cart_subtotal demo_cart = spec_cart_subtotal demo_cart \<and>
      cart_subtotal demo_cart = Inr (float_lit (of_int (cart_cents (items demo_cart)) / 100))"
    by blast
  then have x: "cart_subtotal demo_cart = spec_cart_subtotal demo_cart"
    and y: "cart_subtotal demo_cart = Inr (float_lit (of_int 2675 / 100))"
    unfolding b by blast+
  from y have "cart_subtotal demo_cart = Inr (float_lit (2675 / 100))"
    by simp
  with x show ?thesis by blast
qed

section \<open>A cart beyond the range\<close>

lemma water_line_code: "code_line_total (CartDrinkItem water 20) = Inr 30"
  by code_simp

lemma water_line_spec: "spec_line_total (CartDrinkItem water 20) = Inr 30"
  by code_simp

lemma sum_lines_replicate:
  assumes "line w = Inr 30" "0 \<le> a" "a + 30 * int n < 2 ^ 53"
  shows "sum_lines line (replicate n w @ rest) (of_int a) =
     sum_lines line rest (of_int (a + 30 * int n))"
  using assms(2,3)
proof (induction n arbitrary: a)
  case 0
  show ?case by simp
next
  case (Suc n)
  have "\<bar>a + 30\<bar> < 2 ^ 53"
    using Suc.prems by simp
  then have "nearest_double (of_int (a + 30)) = of_int (a + 30)"
    by (rule nearest_double_of_int)
  then have step: "fadd (of_int a) 30 = of_int (a + 30)"
    by (simp add: fadd_def)
  have "sum_lines line (replicate (Suc n) w @ rest) (of_int a) =
      sum_lines line (replicate n w @ rest) (of_int (a + 30))"
    by (simp add: assms(1) step)
  also have "\<dots> = sum_lines line rest (of_int (a + 30 + 30 * int n))"
    using Suc.prems by (intro Suc.IH) simp_all
  finally show ?case by (simp add: algebra_simps)
qed

lemma last_line_code:
  "sum_lines code_line_total [CartPizzaItem ''Custom Pizza'' hot_honey_pizza 15] 2251799813685270 =
     Inr (4503599627371529 / 2)"
  by code_simp

lemma last_line_spec:
  "sum_lines spec_line_total [CartPizzaItem ''Custom Pizza'' hot_honey_pizza 15] 2251799813685270 =
     Inr 2251799813685764"
  by code_simp

lemma round2_code_total: "round2 (4503599627371529 / 2) = 4503599627371529 / 2"
  by code_simp

lemma round2_spec_total: "round2 2251799813685764 = 2251799813685764"
  by code_simp

lemma long_cart_items:
  "items long_cart =
     replicate water_lines (CartDrinkItem water 20) @
     [CartPizzaItem ''Custom Pizza'' hot_honey_pizza 15]"
  by (simp add: long_cart_def)

lemma long_cart_prefix:
  assumes "line (CartDrinkItem water 20) = Inr 30"
  shows "sum_lines line (items long_cart) 0 =
     sum_lines line [CartPizzaItem ''Custom Pizza'' hot_honey_pizza 15] 2251799813685270"
proof -
  have a: "sum_lines line (replicate water_lines (CartDrinkItem water 20) @
          [CartPizzaItem ''Custom Pizza'' hot_honey_pizza 15]) (of_int 0) =
      sum_lines line [CartPizzaItem ''Custom Pizza'' hot_honey_pizza 15]
        (of_int (0 + 30 * int water_lines))"
    by (rule sum_lines_replicate) (use assms in \<open>simp_all add: water_lines_def\<close>)
  have b: "(of_int 0 :: rat) = 0" "(of_int (0 + 30 * int water_lines) :: rat) = 2251799813685270"
    by (simp_all add: water_lines_def)
  show ?thesis
    by (simp only: long_cart_items a [unfolded b])
qed

text \<open>
  C6, as stated, fails for a cart that is long enough. After 75059993789509 lines of
  twenty waters the running total is 2251799813685270, where neighbouring doubles are
  0.5 apart. The last line is fifteen pizzas at 32.95: the float product is
  494.25000000000006, which takes the total up to 2251799813685764.5, while the rounded
  line total 494.25 falls on the midpoint and the total goes to the even neighbour
  2251799813685764.
\<close>

theorem cart_subtotal_long_cart:
  "cart_subtotal long_cart = Inr (4503599627371529 / 2) \<and>
   spec_cart_subtotal long_cart = Inr 2251799813685764 \<and>
   cart_subtotal long_cart \<noteq> spec_cart_subtotal long_cart"
proof -
  have "subtotal_loop (items long_cart) 0 = Inr (4503599627371529 / 2)"
    by (simp only: subtotal_loop_sum_lines long_cart_prefix [where line = code_line_total, OF water_line_code] last_line_code)
  then have 1: "cart_subtotal long_cart = Inr (4503599627371529 / 2)"
    by (simp add: cart_subtotal_def round2_code_total)
  have "sum_lines spec_line_total (items long_cart) 0 = Inr 2251799813685764"
    by (simp only: long_cart_prefix [where line = spec_line_total, OF water_line_spec] last_line_spec)
  then have 2: "spec_cart_subtotal long_cart = Inr 2251799813685764"
    by (simp add: spec_cart_subtotal_def round2_spec_total)
  from 1 2 show ?thesis by simp
qed

section \<open>Placing an order\<close>

















end
